theory Spec2Isabelle
  imports
    Main
    "HOL-Library.AList"
    "HOL-Library.Char_ord"
    "HOL-Library.List_Lexorder"
    "HOL-Library.Multiset"
begin

section \<open>MongoToSql: schema inference, type resolution and batch loading\<close>

text \<open>
  A shallow embedding of \<^verbatim>\<open>src/MongoToSql.py\<close>. Python dictionaries are
  association lists in insertion order (\<open>AList.update\<close> overwrites in place or appends,
  as an assignment to a \<^verbatim>\<open>dict\<close> does), exceptions are values of \<open>py_error\<close>,
  and the relational sink is a log of calls together with a function that says which call
  raises. A Python \<^verbatim>\<open>str\<close> is a \<open>string\<close>, one \<open>char\<close> per code point (code points
  below 256), compared lexicographically by code point as Python compares.
\<close>

subsection \<open>Configuration constants (lines 16-37)\<close>

definition BATCH_INSERT :: nat where "BATCH_INSERT = 500"
definition DECIMAL_PRECISION :: nat where "DECIMAL_PRECISION = 38"
definition DECIMAL_SCALE :: nat where "DECIMAL_SCALE = 18"
definition ReCreateIfExists :: int where "ReCreateIfExists = 1"

definition INT32_MIN :: int where "INT32_MIN = - (2 ^ 31)"
definition INT32_MAX :: int where "INT32_MAX = 2 ^ 31 - 1"
definition INT64_MIN :: int where "INT64_MIN = - (2 ^ 63)"
definition INT64_MAX :: int where "INT64_MAX = 2 ^ 63 - 1"

subsection \<open>Values of a document\<close>

text \<open>
  \<open>pydecimal\<close> stands for a \<^verbatim>\<open>decimal.Decimal\<close>. A \<^verbatim>\<open>Decimal128\<close> carries what
  \<^verbatim>\<open>to_decimal()\<close> returns and what \<^verbatim>\<open>decimal.Decimal(str(value))\<close> returns, each
  \<open>None\<close> when the call raises. \<open>VOther\<close> is a value of any class the program does not
  name; it carries the result of \<^verbatim>\<open>str(value)\<close>, \<open>None\<close> when that raises.
  \<open>VObjectId\<close> carries the text \<^verbatim>\<open>str(value)\<close> returns (24 hexadecimal digits),
  \<open>VFloat\<close> a mantissa and an exponent, \<open>VDatetime\<close> the microseconds of the instant;
  the program never looks inside these three.
\<close>

datatype pydecimal = Decimal int int

datatype decimal128 = Decimal128 (to_decimal: "pydecimal option") (decimal_of_str: "pydecimal option")

datatype raw_value =
    VNone
  | VBool bool
  | VInt int
  | VInt64 int
  | VFloat int int
  | VDecimal128 decimal128
  | VDecimal pydecimal
  | VDatetime int
  | VStr string
  | VObjectId string
  | VList "raw_value list"
  | VDict "(string \<times> raw_value) list"
  | VBytes string
  | VByteArray string
  | VMemoryView string
  | VOther "string option"

type_synonym document = "(string \<times> raw_value) list"

datatype py_error = KeyError | InvalidOperation | JsonError | SinkError

text \<open>The \<^verbatim>\<open>isinstance\<close> tests of the program. A Python \<^verbatim>\<open>bool\<close> is an instance
  of \<^verbatim>\<open>int\<close>, and \<^verbatim>\<open>bson.Int64\<close> is a subclass of \<^verbatim>\<open>int\<close>.\<close>

fun isinstance_bool :: "raw_value \<Rightarrow> bool" where
  "isinstance_bool (VBool b) = True"
| "isinstance_bool v = False"

fun isinstance_Int64 :: "raw_value \<Rightarrow> bool" where
  "isinstance_Int64 (VInt64 n) = True"
| "isinstance_Int64 v = False"

fun isinstance_int :: "raw_value \<Rightarrow> bool" where
  "isinstance_int (VBool b) = True"
| "isinstance_int (VInt n) = True"
| "isinstance_int (VInt64 n) = True"
| "isinstance_int v = False"

fun isinstance_float :: "raw_value \<Rightarrow> bool" where
  "isinstance_float (VFloat m e) = True"
| "isinstance_float v = False"

fun isinstance_Decimal128 :: "raw_value \<Rightarrow> bool" where
  "isinstance_Decimal128 (VDecimal128 d) = True"
| "isinstance_Decimal128 v = False"

fun isinstance_Decimal :: "raw_value \<Rightarrow> bool" where
  "isinstance_Decimal (VDecimal d) = True"
| "isinstance_Decimal v = False"

fun isinstance_datetime :: "raw_value \<Rightarrow> bool" where
  "isinstance_datetime (VDatetime t) = True"
| "isinstance_datetime v = False"

fun isinstance_str :: "raw_value \<Rightarrow> bool" where
  "isinstance_str (VStr s) = True"
| "isinstance_str v = False"

fun isinstance_ObjectId :: "raw_value \<Rightarrow> bool" where
  "isinstance_ObjectId (VObjectId oid) = True"
| "isinstance_ObjectId v = False"

fun isinstance_list_dict :: "raw_value \<Rightarrow> bool" where
  "isinstance_list_dict (VList xs) = True"
| "isinstance_list_dict (VDict kvs) = True"
| "isinstance_list_dict v = False"

fun isinstance_bytes :: "raw_value \<Rightarrow> bool" where
  "isinstance_bytes (VBytes bs) = True"
| "isinstance_bytes v = False"

fun isinstance_bytearray :: "raw_value \<Rightarrow> bool" where
  "isinstance_bytearray (VByteArray bs) = True"
| "isinstance_bytearray v = False"

fun isinstance_memoryview :: "raw_value \<Rightarrow> bool" where
  "isinstance_memoryview (VMemoryView bs) = True"
| "isinstance_memoryview v = False"

text \<open>\<^verbatim>\<open>int(value)\<close> on an instance of \<^verbatim>\<open>int\<close>, \<^verbatim>\<open>len(value)\<close> on a \<^verbatim>\<open>str\<close>, and
  \<^verbatim>\<open>str(value)\<close> (\<open>None\<close> when it raises). The last equation of each is never reached:
  the program calls them behind the matching \<^verbatim>\<open>isinstance\<close> test.\<close>

fun py_int :: "raw_value \<Rightarrow> int" where
  "py_int (VInt n) = n"
| "py_int (VInt64 n) = n"
| "py_int (VBool b) = (if b then 1 else 0)"
| "py_int v = 0"

fun py_len :: "raw_value \<Rightarrow> nat" where
  "py_len (VStr s) = length s"
| "py_len v = 0"

fun py_str :: "raw_value \<Rightarrow> string option" where
  "py_str (VOther s) = s"
| "py_str (VStr s) = Some s"
| "py_str (VObjectId oid) = Some oid"
| "py_str v = None"

text \<open>\<^verbatim>\<open>bytes(value)\<close> on a \<^verbatim>\<open>bytearray\<close> or a \<^verbatim>\<open>memoryview\<close>, and the two
  conversions of a \<^verbatim>\<open>Decimal128\<close>.\<close>

fun py_bytes :: "raw_value \<Rightarrow> string" where
  "py_bytes (VBytes bs) = bs"
| "py_bytes (VByteArray bs) = bs"
| "py_bytes (VMemoryView bs) = bs"
| "py_bytes v = []"

fun value_to_decimal :: "raw_value \<Rightarrow> pydecimal option" where
  "value_to_decimal (VDecimal128 d) = to_decimal d"
| "value_to_decimal v = None"

fun Decimal_of_str_value :: "raw_value \<Rightarrow> pydecimal option" where
  "Decimal_of_str_value (VDecimal128 d) = decimal_of_str d"
| "Decimal_of_str_value v = None"

subsection \<open>Field statistics and the scanner (lines 39-103)\<close>

datatype type_tag =
  TNull | TBool | TInt | TFloat | TDecimal | TDatetime | TStr | TObjectId | TJson | TBytes

text \<open>The dictionary of one field. The key \<^verbatim>\<open>"nullable"\<close> is absent (\<open>None\<close>) until
  the scan has ended.\<close>

record field_stats =
  types :: "type_tag set"
  count :: nat
  int_min :: "int option"
  int_max :: "int option"
  max_str_len :: nat
  nullable :: "bool option"

type_synonym stats_map = "(string \<times> field_stats) list"

definition new_stats :: field_stats where
  "new_stats = \<lparr>types = {}, count = 0, int_min = None, int_max = None,
                 max_str_len = 0, nullable = None\<rparr>"

text \<open>The entry of a field that one document holds, with the value \<^verbatim>\<open>None\<close>.\<close>

definition null_only_stats :: field_stats where
  "null_only_stats = \<lparr>types = {TNull}, count = 1, int_min = None, int_max = None,
                       max_str_len = 0, nullable = Some False\<rparr>"

definition add_type :: "type_tag \<Rightarrow> field_stats \<Rightarrow> field_stats" where
  "add_type t st = st\<lparr>types := insert t (types st)\<rparr>"

text \<open>Lines 61-96, the body of the loop over \<^verbatim>\<open>doc.items()\<close> on the entry \<open>st0\<close> of the
  field.\<close>

definition observe_value :: "field_stats \<Rightarrow> raw_value \<Rightarrow> field_stats" where
  "observe_value st0 v =
    (let st = st0\<lparr>count := count st0 + 1\<rparr> in
     if v = VNone then add_type TNull st
     else if isinstance_bool v then add_type TBool st
     else if isinstance_Int64 v \<or> (isinstance_int v \<and> \<not> isinstance_bool v) then
       (let st1 = add_type TInt st;
            n = py_int v;
            st2 = (if (case int_min st1 of None \<Rightarrow> True | Some lo \<Rightarrow> n < lo)
                   then st1\<lparr>int_min := Some n\<rparr> else st1)
        in if (case int_max st2 of None \<Rightarrow> True | Some hi \<Rightarrow> n > hi)
           then st2\<lparr>int_max := Some n\<rparr> else st2)
     else if isinstance_float v then add_type TFloat st
     else if isinstance_Decimal128 v \<or> isinstance_Decimal v then add_type TDecimal st
     else if isinstance_datetime v then add_type TDatetime st
     else if isinstance_str v then
       (let st1 = add_type TStr st
        in st1\<lparr>max_str_len := max (max_str_len st1) (py_len v)\<rparr>)
     else if isinstance_ObjectId v then add_type TObjectId st
     else if isinstance_list_dict v then add_type TJson st
     else if isinstance_bytes v \<or> isinstance_bytearray v \<or> isinstance_memoryview v
       then add_type TBytes st
     else
       (let st1 = add_type TStr st
        in case py_str v of
             None \<Rightarrow> st1
           | Some s \<Rightarrow> st1\<lparr>max_str_len := max (max_str_len st1) (length s)\<rparr>))"

text \<open>Lines 50-58: every key of the document gets an entry.\<close>

fun ensure_keys :: "string list \<Rightarrow> stats_map \<Rightarrow> stats_map" where
  "ensure_keys [] stats = stats"
| "ensure_keys (key # keys) stats =
     ensure_keys keys
       (if map_of stats key = None then AList.update key new_stats stats else stats)"

text \<open>Lines 60-96: \<^verbatim>\<open>st = stats[key]\<close> raises \<^verbatim>\<open>KeyError\<close> on a missing key.\<close>

fun update_fields :: "document \<Rightarrow> stats_map \<Rightarrow> py_error + stats_map" where
  "update_fields [] stats = Inr stats"
| "update_fields ((key, v) # items) stats =
     (case map_of stats key of
        None \<Rightarrow> Inl KeyError
      | Some st \<Rightarrow> update_fields items (AList.update key (observe_value st v) stats))"

definition scan_doc :: "stats_map \<Rightarrow> document \<Rightarrow> py_error + stats_map" where
  "scan_doc stats doc = update_fields doc (ensure_keys (map fst doc) stats)"

text \<open>Line 46: \<^verbatim>\<open>sample_size and sample_size > 0 and i >= sample_size\<close>; \<^verbatim>\<open>None\<close> and
  \<^verbatim>\<open>0\<close> are falsy.\<close>

definition sample_exhausted :: "int option \<Rightarrow> nat \<Rightarrow> bool" where
  "sample_exhausted sample_size i =
     (case sample_size of
        None \<Rightarrow> False
      | Some n \<Rightarrow> n \<noteq> 0 \<and> n > 0 \<and> int i \<ge> n)"

text \<open>Lines 45-96: the loop over \<^verbatim>\<open>enumerate(cursor)\<close> with its \<^verbatim>\<open>break\<close>.\<close>

fun scan_docs ::
  "int option \<Rightarrow> nat \<Rightarrow> document list \<Rightarrow> stats_map \<Rightarrow> nat \<Rightarrow> py_error + (stats_map \<times> nat)" where
  "scan_docs sample_size i [] stats total_docs = Inr (stats, total_docs)"
| "scan_docs sample_size i (doc # cursor) stats total_docs =
     (if sample_exhausted sample_size i then Inr (stats, total_docs)
      else case scan_doc stats doc of
             Inl e \<Rightarrow> Inl e
           | Inr stats' \<Rightarrow> scan_docs sample_size (i + 1) cursor stats' (total_docs + 1))"

text \<open>Lines 100-101.\<close>

definition set_nullable :: "nat \<Rightarrow> stats_map \<Rightarrow> stats_map" where
  "set_nullable total_docs stats =
     map (\<lambda>(key, st). (key, st\<lparr>nullable := Some (count st < total_docs)\<rparr>)) stats"

definition analyze_collection_schema ::
  "document list \<Rightarrow> int option \<Rightarrow> py_error + (stats_map \<times> nat)" where
  "analyze_collection_schema collection sample_size =
     (case scan_docs sample_size 0 collection [] 0 of
        Inl e \<Rightarrow> Inl e
      | Inr (stats, total_docs) \<Rightarrow> Inr (set_nullable total_docs stats, total_docs))"

subsection \<open>The type resolver (lines 105-169)\<close>

text \<open>The text of a natural number, as an f-string renders it.\<close>

fun str_nat :: "nat \<Rightarrow> string" where
  "str_nat n =
     (if n < 10 then [''0123456789'' ! n]
      else str_nat (n div 10) @ [''0123456789'' ! (n mod 10)])"

declare str_nat.simps [simp del]

definition sql_type_from_stats :: "field_stats \<Rightarrow> string" where
  "sql_type_from_stats st =
    (let tys = types st in
     if tys = {TNull} then ''NVARCHAR(MAX)''
     else if TJson \<in> tys then ''NVARCHAR(MAX)''
     else if tys = {TBytes} then ''VARBINARY(MAX)''
     else if tys = {TObjectId} \<or> (TObjectId \<in> tys \<and> card tys = 1) then ''NVARCHAR(24)''
     else if tys = {TBool} then ''BIT''
     else if tys = {TDatetime} then ''DATETIME2''
     else if TDecimal \<in> tys \<and> tys \<subseteq> {TDecimal, TInt} then
       ''DECIMAL('' @ str_nat DECIMAL_PRECISION @ '','' @ str_nat DECIMAL_SCALE @ '')''
     else if TFloat \<in> tys then ''FLOAT''
     else if tys = {TInt} \<or> tys = {TInt, TNull} then
       (case int_min st of
          None \<Rightarrow> ''BIGINT''
        | Some lo \<Rightarrow>
           (case int_max st of
              None \<Rightarrow> ''BIGINT''
            | Some hi \<Rightarrow>
               if INT32_MIN \<le> lo \<and> lo \<le> hi \<and> hi \<le> INT32_MAX then ''INT''
               else if INT64_MIN \<le> lo \<and> lo \<le> hi \<and> hi \<le> INT64_MAX then ''BIGINT''
               else ''DECIMAL('' @ str_nat DECIMAL_PRECISION @ '',0)''))
     else if tys \<subseteq> {TStr, TNull} then
       (let maxlen = max_str_len st in
        if maxlen \<le> 1 then ''NCHAR(1)''
        else if maxlen \<le> 255 then ''NVARCHAR(255)''
        else ''NVARCHAR(MAX)'')
     else ''NVARCHAR(MAX)'')"

subsection \<open>The table definition builder (lines 171-195)\<close>

definition NL :: char where "NL = CHR 0x0A"
definition SQ :: char where "SQ = CHR 0x27"

text \<open>\<^verbatim>\<open>sep.join(xs)\<close>.\<close>

fun join :: "string \<Rightarrow> string list \<Rightarrow> string" where
  "join sep [] = []"
| "join sep [x] = x"
| "join sep (x # y # ys) = x @ sep @ join sep (y # ys)"

definition column_sql :: "string \<times> string \<Rightarrow> string" where
  "column_sql = (\<lambda>(col, sql_type). ''['' @ col @ ''] '' @ sql_type @ '' NULL'')"

definition build_create_table_statement :: "string \<Rightarrow> (string \<times> string) list \<Rightarrow> string" where
  "build_create_table_statement table_name schema_map =
    (let cols = map column_sql schema_map;
         cols_sql = join ('','' @ [NL] @ ''  '') cols
     in if ReCreateIfExists = 1 then
          [NL] @ ''IF OBJECT_ID(N'' @ [SQ] @ ''dbo.'' @ table_name @ [SQ] @ '', '' @ [SQ] @ ''U''
            @ [SQ] @ '') IS NOT NULL'' @ [NL]
          @ ''    DROP TABLE [dbo].['' @ table_name @ ''];'' @ [NL]
          @ ''CREATE TABLE [dbo].['' @ table_name @ ''] ('' @ [NL]
          @ ''  '' @ cols_sql @ [NL]
          @ '');'' @ [NL]
        else
          [NL] @ ''IF OBJECT_ID(N'' @ [SQ] @ ''dbo.'' @ table_name @ [SQ] @ '', '' @ [SQ] @ ''U''
            @ [SQ] @ '') IS NULL'' @ [NL]
          @ ''BEGIN'' @ [NL]
          @ ''  CREATE TABLE [dbo].['' @ table_name @ ''] ('' @ [NL]
          @ ''  '' @ cols_sql @ [NL]
          @ ''  );'' @ [NL]
          @ ''END'' @ [NL])"

subsection \<open>The value converter (lines 197-223)\<close>

text \<open>\<open>dumps\<close> stands for \<^verbatim>\<open>json.dumps(value, default=str)\<close> of the standard library: any
  partial function from values to text, \<open>None\<close> where the call raises (a value inside whose
  \<^verbatim>\<open>str\<close> raises, a key that is no string or number, a cycle); \<open>JsonError\<close> is the exception
  then. \<^verbatim>\<open>str\<close> of an \<^verbatim>\<open>ObjectId\<close> always returns, so the \<open>None\<close> case of that branch is
  never taken.\<close>

definition convert_value_for_sql ::
  "(raw_value \<Rightarrow> string option) \<Rightarrow> raw_value \<Rightarrow> py_error + raw_value" where
  "convert_value_for_sql dumps v =
    (if v = VNone then Inr VNone
     else if isinstance_ObjectId v then
       (case py_str v of Some s \<Rightarrow> Inr (VStr s) | None \<Rightarrow> Inr (VStr []))
     else if isinstance_Decimal128 v then
       (case value_to_decimal v of
          Some d \<Rightarrow> Inr (VDecimal d)
        | None \<Rightarrow>
           (case Decimal_of_str_value v of
              Some d \<Rightarrow> Inr (VDecimal d)
            | None \<Rightarrow> Inl InvalidOperation))
     else if isinstance_Decimal v then Inr v
     else if isinstance_list_dict v then
       (case dumps v of Some s \<Rightarrow> Inr (VStr s) | None \<Rightarrow> Inl JsonError)
     else if isinstance_bytes v then Inr v
     else if isinstance_bytearray v then Inr (VBytes (py_bytes v))
     else if isinstance_memoryview v then Inr (VBytes (py_bytes v))
     else if isinstance_datetime v then Inr v
     else Inr v)"

subsection \<open>The relational sink\<close>

text \<open>
  The sink is known by its calls. The log holds every call made on the connection, each
  with \<open>True\<close> when it returned and \<open>False\<close> when it raised; a sink is a function that
  says, from the log so far and the call, whether the call raises.
\<close>

datatype sink_call = Execute string "raw_value list" | Commit

type_synonym sink_log = "(sink_call \<times> bool) list"
type_synonym sink = "sink_log \<Rightarrow> sink_call \<Rightarrow> bool"

definition call_sink :: "sink \<Rightarrow> sink_call \<Rightarrow> sink_log \<Rightarrow> bool \<times> sink_log" where
  "call_sink raises c log = (\<not> raises log c, log @ [(c, \<not> raises log c)])"

subsection \<open>Schema and load (lines 225-280)\<close>

text \<open>Line 231: the entry made for \<^verbatim>\<open>_id\<close> when the scan has not seen it.\<close>

definition id_stats :: field_stats where
  "id_stats = \<lparr>types = {TObjectId}, count = 0, int_min = None, int_max = None,
                max_str_len = 24, nullable = Some True\<rparr>"

definition ensure_id :: "stats_map \<Rightarrow> stats_map" where
  "ensure_id stats =
     (if map_of stats ''_id'' = None then AList.update ''_id'' id_stats stats else stats)"

text \<open>Line 236.\<close>

definition ordered_fields_of :: "stats_map \<Rightarrow> string list" where
  "ordered_fields_of stats = ''_id'' # sort (filter (\<lambda>k. k \<noteq> ''_id'') (map fst stats))"

text \<open>Lines 237-239.\<close>

fun build_schema_map ::
  "stats_map \<Rightarrow> string list \<Rightarrow> (string \<times> string) list \<Rightarrow> py_error + (string \<times> string) list" where
  "build_schema_map stats [] schema_map = Inr schema_map"
| "build_schema_map stats (field # rest) schema_map =
     (case map_of stats field of
        None \<Rightarrow> Inl KeyError
      | Some st \<Rightarrow>
          build_schema_map stats rest (AList.update field (sql_type_from_stats st) schema_map))"

text \<open>Lines 226-239: the statistics with \<^verbatim>\<open>_id\<close>, the ordered fields and the schema
  map.\<close>

definition infer_schema ::
  "document list \<Rightarrow> int option \<Rightarrow> py_error + (stats_map \<times> string list \<times> (string \<times> string) list)" where
  "infer_schema mongo_collection sample_size =
     (case analyze_collection_schema mongo_collection sample_size of
        Inl e \<Rightarrow> Inl e
      | Inr (stats0, total_docs) \<Rightarrow>
          (let stats = ensure_id stats0;
               ordered_fields = ordered_fields_of stats
           in case build_schema_map stats ordered_fields [] of
                Inl e \<Rightarrow> Inl e
              | Inr schema_map \<Rightarrow> Inr (stats, ordered_fields, schema_map)))"

text \<open>Lines 250-252.\<close>

definition insert_statement :: "string \<Rightarrow> string list \<Rightarrow> string" where
  "insert_statement table_name insert_cols =
     (let placeholders = join '', '' (replicate (length insert_cols) ''?'');
          columns_sql = join '', '' (map (\<lambda>c. ''['' @ c @ '']'') insert_cols)
      in ''INSERT INTO [dbo].['' @ table_name @ ''] ('' @ columns_sql @ '') VALUES (''
           @ placeholders @ '')'')"

text \<open>\<^verbatim>\<open>doc.get(c)\<close>, and lines 258-260.\<close>

definition doc_get :: "document \<Rightarrow> string \<Rightarrow> raw_value" where
  "doc_get doc c = (case map_of doc c of None \<Rightarrow> VNone | Some v \<Rightarrow> v)"

fun convert_values ::
  "(raw_value \<Rightarrow> string option) \<Rightarrow> document \<Rightarrow> string list \<Rightarrow> py_error + raw_value list" where
  "convert_values dumps doc [] = Inr []"
| "convert_values dumps doc (c # cs) =
     (case convert_value_for_sql dumps (doc_get doc c) of
        Inl e \<Rightarrow> Inl e
      | Inr v \<Rightarrow>
         (case convert_values dumps doc cs of
            Inl e \<Rightarrow> Inl e
          | Inr vs \<Rightarrow> Inr (v # vs)))"

text \<open>Lines 265-270.\<close>

definition safe_value ::
  "(raw_value \<Rightarrow> string option) \<Rightarrow> raw_value \<Rightarrow> py_error + raw_value" where
  "safe_value dumps v =
     (if isinstance_list_dict v then
        (case dumps v of Some s \<Rightarrow> Inr (VStr s) | None \<Rightarrow> Inl JsonError)
      else Inr v)"

fun safe_values ::
  "(raw_value \<Rightarrow> string option) \<Rightarrow> raw_value list \<Rightarrow> py_error + raw_value list" where
  "safe_values dumps [] = Inr []"
| "safe_values dumps (v # vs) =
     (case safe_value dumps v of
        Inl e \<Rightarrow> Inl e
      | Inr sv \<Rightarrow>
         (case safe_values dumps vs of
            Inl e \<Rightarrow> Inl e
          | Inr svs \<Rightarrow> Inr (sv # svs)))"

text \<open>Lines 258-271: one document. The result is the exception that leaves the loop, if
  any, and the log. An exception raised while the values of the retry are built leaves the
  loop as well.\<close>

definition insert_row ::
  "(raw_value \<Rightarrow> string option) \<Rightarrow> sink \<Rightarrow> string \<Rightarrow> string list \<Rightarrow> document \<Rightarrow> sink_log
     \<Rightarrow> py_error option \<times> sink_log" where
  "insert_row dumps raises insert_stmt insert_cols doc log =
     (case convert_values dumps doc insert_cols of
        Inl e \<Rightarrow> (Some e, log)
      | Inr vals \<Rightarrow>
         (case call_sink raises (Execute insert_stmt vals) log of
            (True, log1) \<Rightarrow> (None, log1)
          | (False, log1) \<Rightarrow>
             (case safe_values dumps vals of
                Inl e \<Rightarrow> (Some e, log1)
              | Inr safe_vals \<Rightarrow>
                 (case call_sink raises (Execute insert_stmt safe_vals) log1 of
                    (True, log2) \<Rightarrow> (None, log2)
                  | (False, log2) \<Rightarrow> (Some SinkError, log2)))))"

text \<open>Lines 254-276: the loop over the documents, with \<open>batch\<close> and \<open>rows\<close>.\<close>

fun insert_rows ::
  "(raw_value \<Rightarrow> string option) \<Rightarrow> sink \<Rightarrow> string \<Rightarrow> string list \<Rightarrow> document list \<Rightarrow> nat \<Rightarrow> nat
     \<Rightarrow> sink_log \<Rightarrow> (py_error + nat) \<times> sink_log" where
  "insert_rows dumps raises insert_stmt insert_cols [] batch rows log = (Inr rows, log)"
| "insert_rows dumps raises insert_stmt insert_cols (doc # docs) batch rows log =
     (case insert_row dumps raises insert_stmt insert_cols doc log of
        (Some e, log1) \<Rightarrow> (Inl e, log1)
      | (None, log1) \<Rightarrow>
          if batch + 1 \<ge> BATCH_INSERT then
            (case call_sink raises Commit log1 of
               (False, log2) \<Rightarrow> (Inl SinkError, log2)
             | (True, log2) \<Rightarrow>
                 insert_rows dumps raises insert_stmt insert_cols docs 0 (rows + 1) log2)
          else insert_rows dumps raises insert_stmt insert_cols docs (batch + 1) (rows + 1) log1)"

text \<open>The whole function. \<open>Finished rows\<close> is the normal return, with the count the last
  \<^verbatim>\<open>print\<close> reports; the other \<^verbatim>\<open>print\<close> calls are left out.\<close>

datatype outcome = Finished nat | Raised py_error

definition create_table_and_insert ::
  "(raw_value \<Rightarrow> string option) \<Rightarrow> sink \<Rightarrow> document list \<Rightarrow> string \<Rightarrow> int option \<Rightarrow> sink_log
     \<Rightarrow> outcome \<times> sink_log" where
  "create_table_and_insert dumps raises mongo_collection table_name sample_size log =
     (case infer_schema mongo_collection sample_size of
        Inl e \<Rightarrow> (Raised e, log)
      | Inr (stats, ordered_fields, schema_map) \<Rightarrow>
         (let create_stmt = build_create_table_statement table_name schema_map
          in case call_sink raises (Execute create_stmt []) log of
               (False, log1) \<Rightarrow> (Raised SinkError, log1)
             | (True, log1) \<Rightarrow>
                (case call_sink raises Commit log1 of
                   (False, log2) \<Rightarrow> (Raised SinkError, log2)
                 | (True, log2) \<Rightarrow>
                    (let insert_cols = ordered_fields;
                         insert_stmt = insert_statement table_name insert_cols
                     in case insert_rows dumps raises insert_stmt insert_cols
                               mongo_collection 0 0 log2 of
                          (Inl e, log3) \<Rightarrow> (Raised e, log3)
                        | (Inr rows, log3) \<Rightarrow>
                           (case call_sink raises Commit log3 of
                              (False, log4) \<Rightarrow> (Raised SinkError, log4)
                            | (True, log4) \<Rightarrow> (Finished rows, log4))))))"

subsection \<open>Notions used to state and prove the properties\<close>

text \<open>The documents that the scanner reads for a given \<^verbatim>\<open>sample_size\<close>.\<close>

definition scanned_docs :: "int option \<Rightarrow> document list \<Rightarrow> document list" where
  "scanned_docs sample_size docs =
     (case sample_size of
        None \<Rightarrow> docs
      | Some n \<Rightarrow> if n \<le> 0 then docs else take (nat n) docs)"

text \<open>The values that a document holds under a key, the scanner's update applied to a list
  of values, and its effect on the entry of a field, which is created when it is missing
  and a value arrives.\<close>

definition values_of :: "string \<Rightarrow> document \<Rightarrow> raw_value list" where
  "values_of key doc = map snd (filter (\<lambda>kv. fst kv = key) doc)"

definition observe_all :: "raw_value list \<Rightarrow> field_stats \<Rightarrow> field_stats" where
  "observe_all vs st = fold (\<lambda>v st. observe_value st v) vs st"

definition absorb :: "raw_value list \<Rightarrow> field_stats option \<Rightarrow> field_stats option" where
  "absorb vs entry =
     (if vs = [] then entry
      else Some (observe_all vs (case entry of None \<Rightarrow> new_stats | Some st \<Rightarrow> st)))"

text \<open>What one value contributes to the entry of its field: a tag, an integer for the
  bounds, a string length; and how a bound takes a new integer in.\<close>

fun tag_of :: "raw_value \<Rightarrow> type_tag" where
  "tag_of VNone = TNull"
| "tag_of (VBool b) = TBool"
| "tag_of (VInt n) = TInt"
| "tag_of (VInt64 n) = TInt"
| "tag_of (VFloat m e) = TFloat"
| "tag_of (VDecimal128 d) = TDecimal"
| "tag_of (VDecimal d) = TDecimal"
| "tag_of (VDatetime t) = TDatetime"
| "tag_of (VStr s) = TStr"
| "tag_of (VObjectId oid) = TObjectId"
| "tag_of (VList xs) = TJson"
| "tag_of (VDict kvs) = TJson"
| "tag_of (VBytes bs) = TBytes"
| "tag_of (VByteArray bs) = TBytes"
| "tag_of (VMemoryView bs) = TBytes"
| "tag_of (VOther s) = TStr"

fun int_obs :: "raw_value \<Rightarrow> int option" where
  "int_obs (VInt n) = Some n"
| "int_obs (VInt64 n) = Some n"
| "int_obs v = None"

fun len_obs :: "raw_value \<Rightarrow> nat" where
  "len_obs (VStr s) = length s"
| "len_obs (VOther (Some s)) = length s"
| "len_obs v = 0"

fun merge_min :: "int option \<Rightarrow> int option \<Rightarrow> int option" where
  "merge_min a None = a"
| "merge_min None (Some n) = Some n"
| "merge_min (Some lo) (Some n) = Some (min lo n)"

fun merge_max :: "int option \<Rightarrow> int option \<Rightarrow> int option" where
  "merge_max a None = a"
| "merge_max None (Some n) = Some n"
| "merge_max (Some hi) (Some n) = Some (max hi n)"

text \<open>The integer bounds of an entry are both unknown, or both known with the minimum not
  above the maximum.\<close>

definition bounds_ordered :: "field_stats \<Rightarrow> bool" where
  "bounds_ordered st =
     (case (int_min st, int_max st) of
        (None, None) \<Rightarrow> True
      | (Some lo, Some hi) \<Rightarrow> lo \<le> hi
      | _ \<Rightarrow> False)"

text \<open>The calls of a log that returned; whether a call is a commit; and, for the loop over
  \<open>n\<close> documents entered with the counter \<open>batch\<close>, which of the calls that return are
  commits (\<open>True\<close>) and which are inserts (\<open>False\<close>).\<close>

definition succeeded :: "sink_log \<Rightarrow> sink_call list" where
  "succeeded log = map fst (filter snd log)"

fun is_commit :: "sink_call \<Rightarrow> bool" where
  "is_commit Commit = True"
| "is_commit (Execute stmt params) = False"




definition mixed_docs :: "document list" where
  "mixed_docs = [[(''a'', VInt 1), (''b'', VNone)], [(''a'', VStr ''x'')]]"

text \<open>A document with a list that \<^verbatim>\<open>json.dumps\<close> cannot serialize, and a \<open>dumps\<close> that
  raises on it.\<close>

definition bad_list :: raw_value where
  "bad_list = VList [VInt 1, VOther None]"

definition dumps_raises_on_bad_list :: "raw_value \<Rightarrow> string option" where
  "dumps_raises_on_bad_list v = (if v = bad_list then None else Some ''[]'')"

section \<open>Properties\<close>

subsection \<open>The type resolver\<close>

lemma str_nat_precision: "str_nat DECIMAL_PRECISION = ''38''"
  by (simp add: str_nat.simps DECIMAL_PRECISION_def)

lemma str_nat_scale: "str_nat DECIMAL_SCALE = ''18''"
  by (simp add: str_nat.simps DECIMAL_SCALE_def)

lemma resolve_int_only:
  assumes "types st = {TInt}"
  shows "sql_type_from_stats st =
       (case int_min st of
          None \<Rightarrow> ''BIGINT''
        | Some lo \<Rightarrow>
           (case int_max st of
              None \<Rightarrow> ''BIGINT''
            | Some hi \<Rightarrow>
               if INT32_MIN \<le> lo \<and> lo \<le> hi \<and> hi \<le> INT32_MAX then ''INT''
               else if INT64_MIN \<le> lo \<and> lo \<le> hi \<and> hi \<le> INT64_MAX then ''BIGINT''
               else ''DECIMAL(38,0)''))"
  using assms
  by (auto simp add: sql_type_from_stats_def str_nat_precision split: option.splits)

lemma resolve_int_null:
  assumes "types st = {TInt, TNull}"
  shows "sql_type_from_stats st =
       (case int_min st of
          None \<Rightarrow> ''BIGINT''
        | Some lo \<Rightarrow>
           (case int_max st of
              None \<Rightarrow> ''BIGINT''
            | Some hi \<Rightarrow>
               if INT32_MIN \<le> lo \<and> lo \<le> hi \<and> hi \<le> INT32_MAX then ''INT''
               else if INT64_MIN \<le> lo \<and> lo \<le> hi \<and> hi \<le> INT64_MAX then ''BIGINT''
               else ''DECIMAL(38,0)''))"
proof -
  have neq: "{TInt, TNull} \<noteq> {TNull}" "{TInt, TNull} \<noteq> {TBytes}"
    "{TInt, TNull} \<noteq> {TObjectId}" "{TInt, TNull} \<noteq> {TBool}" "{TInt, TNull} \<noteq> {TDatetime}"
    by (simp_all add: doubleton_eq_iff)
  from assms show ?thesis
    by (auto simp add: sql_type_from_stats_def str_nat_precision neq split: option.splits)
qed

text \<open>
  C2. Statistics whose tag set is \<open>{decimal, null}\<close> do not meet the condition of the
  decimal rule (the tag set is not within \<open>{decimal, int}\<close>), nor the condition of any
  other rule before the last, and resolve to \<open>NVARCHAR(MAX)\<close>, the result of the last rule.
\<close>

theorem decimal_null_is_mixed:
  assumes "types st = {TDecimal, TNull}"
  shows "\<not> (TDecimal \<in> types st \<and> types st \<subseteq> {TDecimal, TInt})
    \<and> types st \<noteq> {TNull} \<and> TJson \<notin> types st \<and> types st \<noteq> {TBytes}
    \<and> \<not> (types st = {TObjectId} \<or> (TObjectId \<in> types st \<and> card (types st) = 1))
    \<and> types st \<noteq> {TBool} \<and> types st \<noteq> {TDatetime} \<and> TFloat \<notin> types st
    \<and> \<not> (types st = {TInt} \<or> types st = {TInt, TNull})
    \<and> \<not> types st \<subseteq> {TStr, TNull}
    \<and> sql_type_from_stats st = ''NVARCHAR(MAX)''
    \<and> sql_type_from_stats st \<noteq>
          ''DECIMAL('' @ str_nat DECIMAL_PRECISION @ '','' @ str_nat DECIMAL_SCALE @ '')''"
  using assms
  by (simp add: sql_type_from_stats_def doubleton_eq_iff str_nat_precision str_nat_scale)

theorem decimal_null_is_mixed_witness:
  "sql_type_from_stats \<lparr>types = {TDecimal, TNull}, count = 2, int_min = None,
      int_max = None, max_str_len = 0, nullable = Some False\<rparr> = ''NVARCHAR(MAX)''"
  using decimal_null_is_mixed [of "\<lparr>types = {TDecimal, TNull}, count = 2, int_min = None,
      int_max = None, max_str_len = 0, nullable = Some False\<rparr>"]
  by simp

lemma text_tag_sets:
  assumes "tys \<subseteq> {TStr, TNull}"
  shows "tys = {} \<or> tys = {TStr} \<or> tys = {TNull} \<or> tys = {TStr, TNull}"
  using assms by blast

lemma resolve_text_rule:
  assumes "types st = {} \<or> types st = {TStr} \<or> types st = {TStr, TNull}"
  shows "sql_type_from_stats st =
           (if max_str_len st \<le> 1 then ''NCHAR(1)''
            else if max_str_len st \<le> 255 then ''NVARCHAR(255)''
            else ''NVARCHAR(MAX)'')"
proof -
  consider "types st = {}" | "types st = {TStr}" | "types st = {TStr, TNull}"
    using assms by blast
  then show ?thesis
  proof cases
    case 1
    then show ?thesis by (simp add: sql_type_from_stats_def)
  next
    case 2
    then show ?thesis by (simp add: sql_type_from_stats_def)
  next
    case 3
    then show ?thesis by (simp add: sql_type_from_stats_def doubleton_eq_iff)
  qed
qed

text \<open>
  C6, as the specification states it, fails: a field whose every value is \<^verbatim>\<open>None\<close> has
  the tag set \<open>{null}\<close>, within \<open>{str, null}\<close>, and the longest string length 0; the first
  rule of the resolver gives it \<open>NVARCHAR(MAX)\<close>, not \<open>NCHAR(1)\<close>.
\<close>

theorem text_sizing_null_counterexample:
  "analyze_collection_schema [[(''a'', VNone)]] None = Inr ([(''a'', null_only_stats)], 1)
   \<and> types null_only_stats \<subseteq> {TStr, TNull}
   \<and> max_str_len null_only_stats \<le> 1
   \<and> sql_type_from_stats null_only_stats = ''NVARCHAR(MAX)''
   \<and> sql_type_from_stats null_only_stats \<noteq> ''NCHAR(1)''"
  by (simp add: analyze_collection_schema_def scan_doc_def sample_exhausted_def
        observe_value_def add_type_def new_stats_def set_nullable_def null_only_stats_def
        sql_type_from_stats_def)

text \<open>
  C6, amended. For statistics whose tag set is within \<open>{str, null}\<close> and is not \<open>{null}\<close>, the
  longest string length decides: at most 1 gives \<open>NCHAR(1)\<close>, at most 255 gives
  \<open>NVARCHAR(255)\<close>, more gives \<open>NVARCHAR(MAX)\<close>; so 1, 255 and 256 give \<open>NCHAR(1)\<close>,
  \<open>NVARCHAR(255)\<close> and \<open>NVARCHAR(MAX)\<close>.
\<close>

theorem text_sizing:
  assumes "types st \<subseteq> {TStr, TNull}" and "types st \<noteq> {TNull}"
  shows "sql_type_from_stats st =
           (if max_str_len st \<le> 1 then ''NCHAR(1)''
            else if max_str_len st \<le> 255 then ''NVARCHAR(255)''
            else ''NVARCHAR(MAX)'')
    \<and> (max_str_len st = 1 \<longrightarrow> sql_type_from_stats st = ''NCHAR(1)'')
    \<and> (max_str_len st = 255 \<longrightarrow> sql_type_from_stats st = ''NVARCHAR(255)'')
    \<and> (max_str_len st = 256 \<longrightarrow> sql_type_from_stats st = ''NVARCHAR(MAX)'')"
proof -
  from text_tag_sets [OF assms(1)] assms(2)
  have "types st = {} \<or> types st = {TStr} \<or> types st = {TStr, TNull}" by blast
  from resolve_text_rule [OF this] show ?thesis by simp
qed

theorem text_sizing_witness:
  "sql_type_from_stats \<lparr>types = {TStr}, count = 2, int_min = None,
      int_max = None, max_str_len = 1, nullable = Some False\<rparr> = ''NCHAR(1)''
   \<and> sql_type_from_stats \<lparr>types = {TStr, TNull}, count = 2, int_min = None,
      int_max = None, max_str_len = 255, nullable = Some False\<rparr> = ''NVARCHAR(255)''
   \<and> sql_type_from_stats \<lparr>types = {TStr}, count = 2, int_min = None,
      int_max = None, max_str_len = 256, nullable = Some False\<rparr> = ''NVARCHAR(MAX)''"
  using
    text_sizing [of "\<lparr>types = {TStr}, count = 2, int_min = None,
      int_max = None, max_str_len = 1, nullable = Some False\<rparr>"]
    text_sizing [of "\<lparr>types = {TStr, TNull}, count = 2, int_min = None,
      int_max = None, max_str_len = 255, nullable = Some False\<rparr>"]
    text_sizing [of "\<lparr>types = {TStr}, count = 2, int_min = None,
      int_max = None, max_str_len = 256, nullable = Some False\<rparr>"]
  by (simp add: doubleton_eq_iff)

subsection \<open>The value classifier\<close>

lemma observe_value_types:
  "types (observe_value st VNone) = insert TNull (types st)"
  "types (observe_value st (VBool b)) = insert TBool (types st)"
  "types (observe_value st (VInt n)) = insert TInt (types st)"
  "types (observe_value st (VInt64 n)) = insert TInt (types st)"
  "types (observe_value st (VFloat m e)) = insert TFloat (types st)"
  "types (observe_value st (VDecimal128 d)) = insert TDecimal (types st)"
  "types (observe_value st (VDecimal p)) = insert TDecimal (types st)"
  "types (observe_value st (VDatetime t)) = insert TDatetime (types st)"
  "types (observe_value st (VStr s)) = insert TStr (types st)"
  "types (observe_value st (VObjectId oid)) = insert TObjectId (types st)"
  "types (observe_value st (VList xs)) = insert TJson (types st)"
  "types (observe_value st (VDict kvs)) = insert TJson (types st)"
  "types (observe_value st (VBytes bs)) = insert TBytes (types st)"
  "types (observe_value st (VByteArray bs)) = insert TBytes (types st)"
  "types (observe_value st (VMemoryView bs)) = insert TBytes (types st)"
  "types (observe_value st (VOther so)) = insert TStr (types st)"
  by (simp_all add: observe_value_def add_type_def Let_def split: option.splits)

text \<open>
  C5. Every value adds exactly one tag to the tag set of its field, whatever the entry was
  before, and the tag is the one of the first test of the chain that the value passes:
  \<^verbatim>\<open>None\<close>, \<^verbatim>\<open>bool\<close>, \<^verbatim>\<open>int\<close>, \<^verbatim>\<open>float\<close>, decimal, \<^verbatim>\<open>datetime\<close>, \<^verbatim>\<open>str\<close>,
  \<^verbatim>\<open>ObjectId\<close>, list or dict, bytes, and \<^verbatim>\<open>str\<close> for everything else. A \<^verbatim>\<open>bool\<close>, though
  an instance of \<^verbatim>\<open>int\<close>, gets the tag \<open>bool\<close> and never the tag \<open>int\<close>.
\<close>

theorem classify_total_deterministic:
  "(\<exists>!t. \<forall>st. types (observe_value st v) = insert t (types st))
   \<and> types (observe_value st VNone) = insert TNull (types st)
   \<and> types (observe_value st (VBool b)) = insert TBool (types st)
   \<and> types (observe_value st (VInt n)) = insert TInt (types st)
   \<and> types (observe_value st (VInt64 n)) = insert TInt (types st)
   \<and> types (observe_value st (VFloat m e)) = insert TFloat (types st)
   \<and> types (observe_value st (VDecimal128 d)) = insert TDecimal (types st)
   \<and> types (observe_value st (VDecimal p)) = insert TDecimal (types st)
   \<and> types (observe_value st (VDatetime t)) = insert TDatetime (types st)
   \<and> types (observe_value st (VStr s)) = insert TStr (types st)
   \<and> types (observe_value st (VObjectId oid)) = insert TObjectId (types st)
   \<and> types (observe_value st (VList xs)) = insert TJson (types st)
   \<and> types (observe_value st (VDict kvs)) = insert TJson (types st)
   \<and> types (observe_value st (VBytes bs)) = insert TBytes (types st)
   \<and> types (observe_value st (VByteArray bs)) = insert TBytes (types st)
   \<and> types (observe_value st (VMemoryView bs)) = insert TBytes (types st)
   \<and> types (observe_value st (VOther so)) = insert TStr (types st)
   \<and> isinstance_int (VBool b)
   \<and> types (observe_value new_stats (VBool b)) = {TBool}
   \<and> TInt \<notin> types (observe_value new_stats (VBool b))"
proof -
  obtain t where t: "\<And>st. types (observe_value st v) = insert t (types st)"
    by (cases v) (simp_all add: observe_value_types)
  have "\<exists>!t. \<forall>st. types (observe_value st v) = insert t (types st)"
  proof (rule ex1I [of _ t])
    show "\<forall>st. types (observe_value st v) = insert t (types st)" using t by simp
  next
    fix t' assume "\<forall>st. types (observe_value st v) = insert t' (types st)"
    then have "types (observe_value new_stats v) = insert t' (types new_stats)" by blast
    with t [of new_stats] show "t' = t" by (simp add: new_stats_def)
  qed
  then show ?thesis
    by (simp add: observe_value_types new_stats_def)
qed

theorem classify_total_deterministic_witness:
  "types (observe_value new_stats (VBool True)) = {TBool}
   \<and> types (observe_value new_stats (VInt 1)) = {TInt}
   \<and> (\<exists>!t. \<forall>st. types (observe_value st (VBool True)) = insert t (types st))"
  using classify_total_deterministic [of "VBool True" new_stats True 1]
  by (simp add: new_stats_def)

subsection \<open>The value converter and the retry of a row\<close>

lemma convert_not_composite:
  "convert_value_for_sql dumps v = Inr v' \<Longrightarrow> \<not> isinstance_list_dict v'"
  by (cases v) (auto simp add: convert_value_for_sql_def split: option.splits if_splits)

lemma convert_values_not_composite:
  "convert_values dumps doc cols = Inr vals \<Longrightarrow> \<forall>v \<in> set vals. \<not> isinstance_list_dict v"
proof (induction cols arbitrary: vals)
  case Nil
  then show ?case by simp
next
  case (Cons c cs)
  then show ?case
    by (auto split: sum.splits dest: convert_not_composite)
qed

lemma safe_values_id:
  "\<forall>v \<in> set vals. \<not> isinstance_list_dict v \<Longrightarrow> safe_values dumps vals = Inr vals"
  by (induction vals) (simp_all add: safe_value_def)

lemma safe_values_converted:
  "convert_values dumps doc cols = Inr vals \<Longrightarrow> safe_values dumps vals = Inr vals"
  by (rule safe_values_id) (rule convert_values_not_composite)

lemma safe_value_spec:
  assumes "safe_value dumps v = Inr s"
  shows "if isinstance_list_dict v then (\<exists>t. dumps v = Some t \<and> s = VStr t) else s = v"
proof (cases "isinstance_list_dict v")
  case True
  with assms show ?thesis by (cases "dumps v") (simp_all add: safe_value_def)
next
  case False
  with assms show ?thesis by (simp add: safe_value_def)
qed

lemma safe_values_spec:
  "safe_values dumps vs = Inr ss \<Longrightarrow>
     list_all2 (\<lambda>v s. if isinstance_list_dict v then (\<exists>t. dumps v = Some t \<and> s = VStr t)
                       else s = v) vs ss"
proof (induction vs arbitrary: ss)
  case Nil
  then show ?case by simp
next
  case (Cons v vs)
  from Cons.prems obtain s where s: "safe_value dumps v = Inr s"
    by (cases "safe_value dumps v") simp_all
  with Cons.prems obtain ss' where ss': "safe_values dumps vs = Inr ss'"
    by (cases "safe_values dumps vs") simp_all
  from Cons.prems s ss' have "ss = s # ss'" by simp
  with safe_value_spec [OF s] Cons.IH [OF ss'] show ?case by simp
qed

lemma insert_row_direct_ok:
  assumes "convert_values dumps doc insert_cols = Inr vals"
    and "\<not> raises log (Execute insert_stmt vals)"
  shows "insert_row dumps raises insert_stmt insert_cols doc log =
           (None, log @ [(Execute insert_stmt vals, True)])"
  using assms by (simp add: insert_row_def call_sink_def)

lemma insert_row_retry:
  assumes "convert_values dumps doc insert_cols = Inr vals"
    and "raises log (Execute insert_stmt vals)"
    and "safe_values dumps vals = Inr safe_vals"
  shows "insert_row dumps raises insert_stmt insert_cols doc log =
     (let log1 = log @ [(Execute insert_stmt vals, False)];
          retry = Execute insert_stmt safe_vals
      in if raises log1 retry then (Some SinkError, log1 @ [(retry, False)])
         else (None, log1 @ [(retry, True)]))"
  using assms by (simp add: insert_row_def call_sink_def Let_def)

lemma create_table_and_insert_propagates:
  assumes "infer_schema coll ss = Inr (stats, cols, schema)"
    and "ddl = Execute (build_create_table_statement table schema) []"
    and "\<not> raises log0 ddl"
    and "\<not> raises (log0 @ [(ddl, True)]) Commit"
    and "insert_rows dumps raises (insert_statement table cols) cols coll 0 0
           (log0 @ [(ddl, True), (Commit, True)]) = (Inl e, log3)"
  shows "create_table_and_insert dumps raises coll table ss log0 = (Raised e, log3)"
  using assms by (simp add: create_table_and_insert_def call_sink_def Let_def)

text \<open>
  C4. When the direct insert of a row raises, the loader makes one more call: the same
  statement with the converted values, every list or dict among them replaced by its JSON
  text and the others unchanged; building these values does not raise. When that call
  returns the row is done. When it raises too, the loop ends with the exception after
  exactly these two calls, whatever documents remain and whatever the counters are (no
  further call, no next row), and \<open>create_table_and_insert\<close> ends with the same exception
  and the same log.
\<close>

theorem single_retry_then_propagate:
  assumes conv: "convert_values dumps doc insert_cols = Inr vals"
    and direct: "raises log (Execute insert_stmt vals)"
    and log1: "log1 = log @ [(Execute insert_stmt vals, False)]"
  shows "\<exists>safe_vals.
      safe_values dumps vals = Inr safe_vals
    \<and> list_all2 (\<lambda>v s. if isinstance_list_dict v then (\<exists>t. dumps v = Some t \<and> s = VStr t)
                         else s = v) vals safe_vals
    \<and> (\<not> raises log1 (Execute insert_stmt safe_vals) \<longrightarrow>
          insert_row dumps raises insert_stmt insert_cols doc log
            = (None, log1 @ [(Execute insert_stmt safe_vals, True)]))
    \<and> (raises log1 (Execute insert_stmt safe_vals) \<longrightarrow>
          insert_row dumps raises insert_stmt insert_cols doc log
            = (Some SinkError, log1 @ [(Execute insert_stmt safe_vals, False)])
          \<and> (\<forall>docs batch rows.
                insert_rows dumps raises insert_stmt insert_cols (doc # docs) batch rows log
                  = (Inl SinkError, log1 @ [(Execute insert_stmt safe_vals, False)])))
    \<and> (\<forall>coll ss stats cols schema table log0 e log3.
          infer_schema coll ss = Inr (stats, cols, schema)
          \<and> \<not> raises log0 (Execute (build_create_table_statement table schema) [])
          \<and> \<not> raises (log0 @ [(Execute (build_create_table_statement table schema) [], True)]) Commit
          \<and> insert_rows dumps raises (insert_statement table cols) cols coll 0 0
               (log0 @ [(Execute (build_create_table_statement table schema) [], True),
                        (Commit, True)]) = (Inl e, log3)
          \<longrightarrow> create_table_and_insert dumps raises coll table ss log0 = (Raised e, log3))"
proof -
  let ?retry = "Execute insert_stmt vals"
  have safe: "safe_values dumps vals = Inr vals"
    using conv by (rule safe_values_converted)
  have each: "list_all2 (\<lambda>v s. if isinstance_list_dict v then (\<exists>t. dumps v = Some t \<and> s = VStr t)
                         else s = v) vals vals"
    using safe by (rule safe_values_spec)
  have row: "insert_row dumps raises insert_stmt insert_cols doc log =
     (if raises log1 ?retry then (Some SinkError, log1 @ [(?retry, False)])
      else (None, log1 @ [(?retry, True)]))"
    using insert_row_retry [of dumps doc insert_cols vals raises log insert_stmt vals]
      conv direct safe log1
    by (simp add: Let_def)
  have ok: "\<not> raises log1 ?retry \<longrightarrow>
          insert_row dumps raises insert_stmt insert_cols doc log
            = (None, log1 @ [(?retry, True)])"
    using row by simp
  have fail: "raises log1 ?retry \<longrightarrow>
          insert_row dumps raises insert_stmt insert_cols doc log
            = (Some SinkError, log1 @ [(?retry, False)])
          \<and> (\<forall>docs batch rows.
                insert_rows dumps raises insert_stmt insert_cols (doc # docs) batch rows log
                  = (Inl SinkError, log1 @ [(?retry, False)]))"
    using row by simp
  have top: "\<forall>coll ss stats cols schema table log0 e log3.
          infer_schema coll ss = Inr (stats, cols, schema)
          \<and> \<not> raises log0 (Execute (build_create_table_statement table schema) [])
          \<and> \<not> raises (log0 @ [(Execute (build_create_table_statement table schema) [], True)]) Commit
          \<and> insert_rows dumps raises (insert_statement table cols) cols coll 0 0
               (log0 @ [(Execute (build_create_table_statement table schema) [], True),
                        (Commit, True)]) = (Inl e, log3)
          \<longrightarrow> create_table_and_insert dumps raises coll table ss log0 = (Raised e, log3)"
    by (intro allI impI) (simp add: create_table_and_insert_def call_sink_def Let_def)
  show ?thesis
    by (rule exI [of _ vals])
       (rule conjI [OF safe conjI [OF each conjI [OF ok conjI [OF fail top]]]])
qed

theorem single_retry_then_propagate_witness:
  "convert_values (\<lambda>v. Some ''[]'') [(''_id'', VInt 1)] [''_id''] = Inr [VInt 1]
   \<and> insert_rows (\<lambda>v. Some ''[]'') (\<lambda>log c. True) ''INSERT'' [''_id'']
        [[(''_id'', VInt 1)], [(''_id'', VInt 2)]] 0 0 []
       = (Inl SinkError, [(Execute ''INSERT'' [VInt 1], False), (Execute ''INSERT'' [VInt 1], False)])"
proof -
  have conv: "convert_values (\<lambda>v. Some ''[]'') [(''_id'', VInt 1)] [''_id''] = Inr [VInt 1]"
    by (simp add: convert_value_for_sql_def doc_get_def)
  have direct: "(\<lambda>log c. True) ([] :: sink_log) (Execute ''INSERT'' [VInt 1])"
    by simp
  from single_retry_then_propagate [of "\<lambda>v. Some ''[]''" "[(''_id'', VInt 1)]" "[''_id'']"
      "[VInt 1]" "\<lambda>log c. True" "[]" "''INSERT''", OF conv direct refl]
  obtain sv where
    sv: "safe_values (\<lambda>v. Some ''[]'') [VInt 1] = Inr sv"
    and twice: "True \<longrightarrow>
          insert_row (\<lambda>v. Some ''[]'') (\<lambda>log c. True) ''INSERT'' [''_id''] [(''_id'', VInt 1)] []
            = (Some SinkError,
               ([] @ [(Execute ''INSERT'' [VInt 1], False)]) @ [(Execute ''INSERT'' sv, False)])
          \<and> (\<forall>docs batch rows.
                insert_rows (\<lambda>v. Some ''[]'') (\<lambda>log c. True) ''INSERT'' [''_id'']
                    ([(''_id'', VInt 1)] # docs) batch rows []
                  = (Inl SinkError,
                     ([] @ [(Execute ''INSERT'' [VInt 1], False)])
                       @ [(Execute ''INSERT'' sv, False)]))"
    by (elim exE conjE) (rule that)
  from sv have "sv = [VInt 1]" by (simp add: safe_value_def)
  with twice
  have "insert_rows (\<lambda>v. Some ''[]'') (\<lambda>log c. True) ''INSERT'' [''_id'']
        [[(''_id'', VInt 1)], [(''_id'', VInt 2)]] 0 0 []
       = (Inl SinkError, [(Execute ''INSERT'' [VInt 1], False), (Execute ''INSERT'' [VInt 1], False)])"
    by simp
  with conv show ?thesis by simp
qed

text \<open>
  C10. The converter never returns a list or a dict: where \<^verbatim>\<open>json.dumps\<close> returns, a list or
  dict becomes its JSON text, and where it raises, the converter raises and returns
  nothing. So whenever the values of a row have been converted, the values of the retry
  are built without an exception and equal the converted values, and after a failed direct
  insert the retry is the same call with the same parameters.
\<close>

theorem retry_repeats_direct_attempt:
  "(\<forall>v v'. convert_value_for_sql dumps v = Inr v' \<longrightarrow> \<not> isinstance_list_dict v')
   \<and> (\<forall>v t. isinstance_list_dict v \<and> dumps v = Some t \<longrightarrow>
          convert_value_for_sql dumps v = Inr (VStr t))
   \<and> (\<forall>v. isinstance_list_dict v \<and> dumps v = None \<longrightarrow>
          convert_value_for_sql dumps v = Inl JsonError)
   \<and> (convert_values dumps doc insert_cols = Inr vals \<longrightarrow>
        safe_values dumps vals = Inr vals
        \<and> (raises log (Execute insert_stmt vals) \<longrightarrow>
             snd (insert_row dumps raises insert_stmt insert_cols doc log)
               = log @ [(Execute insert_stmt vals, False),
                        (Execute insert_stmt vals,
                           \<not> raises (log @ [(Execute insert_stmt vals, False)])
                                (Execute insert_stmt vals))]))"
proof -
  have a: "\<forall>v v'. convert_value_for_sql dumps v = Inr v' \<longrightarrow> \<not> isinstance_list_dict v'"
    using convert_not_composite by blast
  have b: "\<forall>v t. isinstance_list_dict v \<and> dumps v = Some t \<longrightarrow>
          convert_value_for_sql dumps v = Inr (VStr t)"
  proof (intro allI impI)
    fix v t assume "isinstance_list_dict v \<and> dumps v = Some t"
    then show "convert_value_for_sql dumps v = Inr (VStr t)"
      by (cases v) (simp_all add: convert_value_for_sql_def)
  qed
  have b': "\<forall>v. isinstance_list_dict v \<and> dumps v = None \<longrightarrow>
          convert_value_for_sql dumps v = Inl JsonError"
  proof (intro allI impI)
    fix v assume "isinstance_list_dict v \<and> dumps v = None"
    then show "convert_value_for_sql dumps v = Inl JsonError"
      by (cases v) (simp_all add: convert_value_for_sql_def)
  qed
  have c: "safe_values dumps vals = Inr vals
        \<and> (raises log (Execute insert_stmt vals) \<longrightarrow>
             snd (insert_row dumps raises insert_stmt insert_cols doc log)
               = log @ [(Execute insert_stmt vals, False),
                        (Execute insert_stmt vals,
                           \<not> raises (log @ [(Execute insert_stmt vals, False)])
                                (Execute insert_stmt vals))])"
    if conv: "convert_values dumps doc insert_cols = Inr vals"
  proof -
    have same: "safe_values dumps vals = Inr vals"
      using conv by (rule safe_values_converted)
    have second: "snd (insert_row dumps raises insert_stmt insert_cols doc log)
               = log @ [(Execute insert_stmt vals, False),
                        (Execute insert_stmt vals,
                           \<not> raises (log @ [(Execute insert_stmt vals, False)])
                                (Execute insert_stmt vals))]"
      if "raises log (Execute insert_stmt vals)"
      using insert_row_retry [of dumps doc insert_cols vals raises log insert_stmt vals]
        conv that same
      by (simp add: Let_def)
    show ?thesis by (rule conjI [OF same impI]) (rule second)
  qed
  show ?thesis by (rule conjI [OF a conjI [OF b conjI [OF b' impI]]]) (rule c)
qed

theorem retry_repeats_direct_attempt_witness:
  "convert_values (\<lambda>v. Some ''[1]'') [(''_id'', VInt 1), (''tags'', VList [VInt 1])]
       [''_id'', ''tags'']
      = Inr [VInt 1, VStr ''[1]'']
   \<and> snd (insert_row (\<lambda>v. Some ''[1]'') (\<lambda>log c. log = []) ''INSERT'' [''_id'', ''tags'']
             [(''_id'', VInt 1), (''tags'', VList [VInt 1])] [])
       = [(Execute ''INSERT'' [VInt 1, VStr ''[1]''], False),
          (Execute ''INSERT'' [VInt 1, VStr ''[1]''], True)]
   \<and> convert_value_for_sql dumps_raises_on_bad_list bad_list = Inl JsonError"
  using retry_repeats_direct_attempt [of "\<lambda>v. Some ''[1]''"
      "[(''_id'', VInt 1), (''tags'', VList [VInt 1])]"
      "[''_id'', ''tags'']" "[VInt 1, VStr ''[1]'']" "\<lambda>log c. log = []" "[]" "''INSERT''"]
  by (simp add: convert_value_for_sql_def doc_get_def dumps_raises_on_bad_list_def bad_list_def)

text \<open>
  A list that \<^verbatim>\<open>json.dumps\<close> cannot serialize ends the run with that exception while the
  row is converted: after the table statement and its commit no insert is attempted and no
  final commit is made.
\<close>

lemma unserializable_value_ends_run:
  "create_table_and_insert dumps_raises_on_bad_list (\<lambda>log c. False)
       [[(''_id'', VInt 1), (''tags'', bad_list)]] ''t'' None []
     = (Raised JsonError,
        [(Execute (build_create_table_statement ''t''
                     [(''_id'', ''INT''), (''tags'', ''NVARCHAR(MAX)'')]) [], True),
         (Commit, True)])"
  by (simp add: create_table_and_insert_def infer_schema_def analyze_collection_schema_def
        scan_doc_def sample_exhausted_def observe_value_def add_type_def new_stats_def
        set_nullable_def ensure_id_def ordered_fields_of_def id_stats_def
        sql_type_from_stats_def INT32_MIN_def INT32_MAX_def insert_row_def call_sink_def
        convert_value_for_sql_def doc_get_def dumps_raises_on_bad_list_def bad_list_def
        Let_def)

subsection \<open>The scanner\<close>

lemma update_absent: "map_of al k = None \<Longrightarrow> AList.update k v al = al @ [(k, v)]"
  by (induction al) auto

lemma ensure_keys_map_of:
  "map_of (ensure_keys ks stats) k =
     (if k \<in> set ks \<and> map_of stats k = None then Some new_stats else map_of stats k)"
  by (induction ks arbitrary: stats) (auto simp add: update_conv')

lemma ensure_keys_keys: "fst ` set (ensure_keys ks stats) = fst ` set stats \<union> set ks"
  by (induction ks arbitrary: stats) (auto simp add: dom_update map_of_eq_None_iff)

lemma ensure_keys_distinct:
  "distinct (map fst stats) \<Longrightarrow> distinct (map fst (ensure_keys ks stats))"
  by (induction ks arbitrary: stats) (simp_all add: distinct_update)

lemma observe_all_Nil [simp]: "observe_all [] st = st"
  by (simp add: observe_all_def)

lemma observe_all_Cons [simp]: "observe_all (v # vs) st = observe_all vs (observe_value st v)"
  by (simp add: observe_all_def)

lemma observe_all_append: "observe_all (vs @ ws) st = observe_all ws (observe_all vs st)"
  by (simp add: observe_all_def)

lemma absorb_append: "absorb (vs @ ws) entry = absorb ws (absorb vs entry)"
  by (simp add: absorb_def observe_all_append)

lemma values_of_Nil_iff: "values_of k doc = [] \<longleftrightarrow> k \<notin> fst ` set doc"
  by (induction doc) (auto simp add: values_of_def)

lemma values_of_Cons:
  "values_of k ((key, v) # items) = (if key = k then v # values_of k items else values_of k items)"
  by (simp add: values_of_def)

lemma update_fields_ok:
  assumes "\<forall>k \<in> fst ` set items. map_of stats k \<noteq> None"
  shows "\<exists>stats'. update_fields items stats = Inr stats'
           \<and> map fst stats' = map fst stats
           \<and> (\<forall>k. map_of stats' k = map_option (observe_all (values_of k items)) (map_of stats k))"
  using assms
proof (induction items arbitrary: stats)
  case Nil
  then show ?case by (simp add: values_of_def option.map_ident)
next
  case (Cons item items)
  obtain key v where item: "item = (key, v)" by (cases item)
  from Cons.prems item obtain st where st: "map_of stats key = Some st" by auto
  let ?stats1 = "AList.update key (observe_value st v) stats"
  have keys1: "map fst ?stats1 = map fst stats"
    using st by (simp add: update_keys weak_map_of_SomeI domI dom_map_of_conv_image_fst [symmetric])
  have m1: "map_of ?stats1 = (map_of stats)(key \<mapsto> observe_value st v)"
    by (rule update_conv')
  have "\<forall>k \<in> fst ` set items. map_of ?stats1 k \<noteq> None"
    using Cons.prems by (simp add: m1)
  from Cons.IH [OF this] obtain stats' where
    r: "update_fields items ?stats1 = Inr stats'"
    and k: "map fst stats' = map fst ?stats1"
    and m: "\<And>k. map_of stats' k = map_option (observe_all (values_of k items)) (map_of ?stats1 k)"
    by blast
  have "update_fields (item # items) stats = Inr stats'"
    using item st r by simp
  moreover have "map fst stats' = map fst stats" using k keys1 by simp
  moreover have "map_of stats' k = map_option (observe_all (values_of k (item # items))) (map_of stats k)" for k
    using m [of k] st by (simp add: item m1 values_of_Cons)
  ultimately show ?case by blast
qed

lemma scan_doc_ok:
  "\<exists>stats'. scan_doc stats doc = Inr stats'
      \<and> fst ` set stats' = fst ` set stats \<union> fst ` set doc
      \<and> (distinct (map fst stats) \<longrightarrow> distinct (map fst stats'))
      \<and> (\<forall>k. map_of stats' k = absorb (values_of k doc) (map_of stats k))"
proof -
  let ?s1 = "ensure_keys (map fst doc) stats"
  have pre: "\<forall>k \<in> fst ` set doc. map_of ?s1 k \<noteq> None"
    by (simp add: ensure_keys_map_of)
  from update_fields_ok [OF pre] obtain stats' where
    r: "update_fields doc ?s1 = Inr stats'"
    and k: "map fst stats' = map fst ?s1"
    and m: "\<And>k. map_of stats' k = map_option (observe_all (values_of k doc)) (map_of ?s1 k)"
    by blast
  have "scan_doc stats doc = Inr stats'" using r by (simp add: scan_doc_def)
  moreover have "fst ` set stats' = fst ` set stats \<union> fst ` set doc"
  proof -
    have "fst ` set stats' = set (map fst stats')" by simp
    also have "\<dots> = set (map fst ?s1)" using k by simp
    also have "\<dots> = fst ` set stats \<union> fst ` set doc"
      using ensure_keys_keys [of "map fst doc" stats] by simp
    finally show ?thesis .
  qed
  moreover have "distinct (map fst stats) \<longrightarrow> distinct (map fst stats')"
    using k ensure_keys_distinct [of stats "map fst doc"] by simp
  moreover have "map_of stats' k = absorb (values_of k doc) (map_of stats k)" for k
  proof (cases "k \<in> fst ` set doc")
    case False
    then have "values_of k doc = []" by (simp add: values_of_Nil_iff)
    with False show ?thesis
      using m [of k] by (cases "map_of stats k") (simp_all add: ensure_keys_map_of absorb_def)
  next
    case True
    then have "values_of k doc \<noteq> []" by (simp add: values_of_Nil_iff)
    with True show ?thesis
      using m [of k] by (cases "map_of stats k") (simp_all add: ensure_keys_map_of absorb_def)
  qed
  ultimately show ?thesis by blast
qed

lemma scan_docs_all:
  "\<exists>stats'. scan_docs None i docs stats total_docs = Inr (stats', total_docs + length docs)
      \<and> fst ` set stats' = fst ` set stats \<union> (\<Union>d \<in> set docs. fst ` set d)
      \<and> (distinct (map fst stats) \<longrightarrow> distinct (map fst stats'))
      \<and> (\<forall>k. map_of stats' k = absorb (concat (map (values_of k) docs)) (map_of stats k))"
proof (induction docs arbitrary: i stats total_docs)
  case Nil
  then show ?case by (simp add: absorb_def)
next
  case (Cons doc docs)
  from scan_doc_ok [of stats doc] obtain s1 where
    r1: "scan_doc stats doc = Inr s1"
    and k1: "fst ` set s1 = fst ` set stats \<union> fst ` set doc"
    and d1: "distinct (map fst stats) \<longrightarrow> distinct (map fst s1)"
    and m1: "\<And>k. map_of s1 k = absorb (values_of k doc) (map_of stats k)"
    by blast
  from Cons.IH [of "i + 1" s1 "total_docs + 1"] obtain stats' where
    r: "scan_docs None (i + 1) docs s1 (total_docs + 1) = Inr (stats', total_docs + 1 + length docs)"
    and k: "fst ` set stats' = fst ` set s1 \<union> (\<Union>d \<in> set docs. fst ` set d)"
    and d: "distinct (map fst s1) \<longrightarrow> distinct (map fst stats')"
    and m: "\<And>k. map_of stats' k = absorb (concat (map (values_of k) docs)) (map_of s1 k)"
    by blast
  have "scan_docs None i (doc # docs) stats total_docs = Inr (stats', total_docs + length (doc # docs))"
    using r1 r by (simp add: sample_exhausted_def)
  moreover have "fst ` set stats' = fst ` set stats \<union> (\<Union>d \<in> set (doc # docs). fst ` set d)"
    using k k1 by auto
  moreover have "distinct (map fst stats) \<longrightarrow> distinct (map fst stats')"
    using d d1 by blast
  moreover have "map_of stats' k = absorb (concat (map (values_of k) (doc # docs))) (map_of stats k)" for k
    using m [of k] m1 [of k] by (simp add: absorb_append)
  ultimately show ?case by blast
qed

lemma scan_docs_sample:
  "scan_docs sample_size i docs stats total_docs =
     scan_docs None i
       (case sample_size of
          None \<Rightarrow> docs
        | Some n \<Rightarrow> if n \<le> 0 then docs else take (nat n - i) docs) stats total_docs"
proof (induction docs arbitrary: i stats total_docs)
  case Nil
  then show ?case by (simp split: option.splits)
next
  case (Cons doc docs)
  show ?case
  proof (cases sample_size)
    case None
    then show ?thesis by simp
  next
    case (Some n)
    show ?thesis
    proof (cases "n \<le> 0")
      case True
      with Some Cons.IH show ?thesis
        by (simp add: sample_exhausted_def split: sum.splits)
    next
      case False
      show ?thesis
      proof (cases "int i \<ge> n")
        case True
        with False Some have "nat n - i = 0" by simp
        with True False Some show ?thesis by (simp add: sample_exhausted_def)
      next
        case ni: False
        with False have "i < nat n" by simp
        then have m: "nat n - i = Suc (nat n - (i + 1))" by simp
        with ni False Some Cons.IH show ?thesis
          by (simp add: sample_exhausted_def split: sum.splits)
      qed
    qed
  qed
qed

lemma observe_value_alt:
  "observe_value st v =
     st\<lparr>types := insert (tag_of v) (types st),
        count := count st + 1,
        int_min := merge_min (int_min st) (int_obs v),
        int_max := merge_max (int_max st) (int_obs v),
        max_str_len := max (max_str_len st) (len_obs v)\<rparr>"
proof (cases v)
  case (VInt n)
  then show ?thesis
    by (cases "int_min st"; cases "int_max st")
       (simp_all add: observe_value_def add_type_def Let_def min_def max_def)
next
  case (VInt64 n)
  then show ?thesis
    by (cases "int_min st"; cases "int_max st")
       (simp_all add: observe_value_def add_type_def Let_def min_def max_def)
next
  case (VOther so)
  then show ?thesis
    by (cases so) (simp_all add: observe_value_def add_type_def Let_def)
qed (simp_all add: observe_value_def add_type_def Let_def)

lemma merge_min_commute: "merge_min (merge_min a x) y = merge_min (merge_min a y) x"
  by (cases a; cases x; cases y) (simp_all add: min.commute min.left_commute min.assoc)

lemma merge_max_commute: "merge_max (merge_max a x) y = merge_max (merge_max a y) x"
  by (cases a; cases x; cases y) (simp_all add: max.commute max.left_commute max.assoc)

lemma observe_value_commute:
  "observe_value (observe_value st v) w = observe_value (observe_value st w) v"
proof -
  have "insert (tag_of w) (insert (tag_of v) (types st)) = insert (tag_of v) (insert (tag_of w) (types st))"
    by (rule insert_commute)
  moreover have "max (max (max_str_len st) (len_obs v)) (len_obs w)
      = max (max (max_str_len st) (len_obs w)) (len_obs v)"
    by (simp add: max.commute max.left_commute)
  ultimately show ?thesis
    by (simp add: observe_value_alt merge_min_commute [of _ "int_obs v" "int_obs w"]
          merge_max_commute [of _ "int_obs v" "int_obs w"])
qed

lemma observe_all_perm:
  assumes "mset vs = mset ws"
  shows "observe_all vs = observe_all ws"
proof -
  have "fold (\<lambda>v st. observe_value st v) vs = fold (\<lambda>v st. observe_value st v) ws"
    by (rule fold_multiset_equiv [OF _ assms]) (simp add: fun_eq_iff observe_value_commute)
  then show ?thesis by (simp add: fun_eq_iff observe_all_def)
qed

lemma absorb_perm:
  assumes "mset vs = mset ws"
  shows "absorb vs entry = absorb ws entry"
proof -
  from assms have "vs = [] \<longleftrightarrow> ws = []" by (metis mset_zero_iff)
  with observe_all_perm [OF assms] show ?thesis by (simp add: absorb_def)
qed

lemma observe_all_count: "count (observe_all vs st) = count st + length vs"
  by (induction vs arbitrary: st) (simp_all add: observe_value_alt)

lemma set_nullable_keys: "map fst (set_nullable t stats) = map fst stats"
  by (induction stats) (auto simp add: set_nullable_def)

lemma set_nullable_map_of:
  "map_of (set_nullable t stats) k
     = map_option (\<lambda>st. st\<lparr>nullable := Some (count st < t)\<rparr>) (map_of stats k)"
  by (induction stats) (auto simp add: set_nullable_def)

lemma analyze_ok:
  "\<exists>stats. analyze_collection_schema docs sample_size
              = Inr (stats, length (scanned_docs sample_size docs))
      \<and> distinct (map fst stats)
      \<and> fst ` set stats = (\<Union>d \<in> set (scanned_docs sample_size docs). fst ` set d)
      \<and> (\<forall>k. map_of stats k
             = map_option (\<lambda>st. st\<lparr>nullable := Some (count st < length (scanned_docs sample_size docs))\<rparr>)
                 (absorb (concat (map (values_of k) (scanned_docs sample_size docs))) None))"
proof -
  let ?S = "scanned_docs sample_size docs"
  have eq: "scan_docs sample_size 0 docs [] 0 = scan_docs None 0 ?S [] 0"
    using scan_docs_sample [of sample_size 0 docs "[]" 0]
    by (cases sample_size) (simp_all add: scanned_docs_def)
  from scan_docs_all [of 0 ?S "[]" 0] obtain s where
    r: "scan_docs None 0 ?S [] 0 = Inr (s, length ?S)"
    and k: "fst ` set s = (\<Union>d \<in> set ?S. fst ` set d)"
    and d: "distinct (map fst s)"
    and m: "\<And>k. map_of s k = absorb (concat (map (values_of k) ?S)) None"
    by auto
  have "analyze_collection_schema docs sample_size = Inr (set_nullable (length ?S) s, length ?S)"
    using eq r by (simp add: analyze_collection_schema_def)
  moreover have "distinct (map fst (set_nullable (length ?S) s))"
    using d by (simp add: set_nullable_keys)
  moreover have "fst ` set (set_nullable (length ?S) s) = (\<Union>d \<in> set ?S. fst ` set d)"
  proof -
    have "fst ` set (set_nullable (length ?S) s) = set (map fst (set_nullable (length ?S) s))"
      by simp
    also have "\<dots> = fst ` set s" by (simp add: set_nullable_keys)
    finally show ?thesis using k by simp
  qed
  moreover have "map_of (set_nullable (length ?S) s) k
             = map_option (\<lambda>st. st\<lparr>nullable := Some (count st < length ?S)\<rparr>)
                 (absorb (concat (map (values_of k) ?S)) None)" for k
    by (simp add: set_nullable_map_of m)
  ultimately show ?thesis by blast
qed

lemma scanned_docs_take:
  "scanned_docs sample_size docs =
     take (case sample_size of
             None \<Rightarrow> length docs
           | Some n \<Rightarrow> if n \<le> 0 then length docs else min (nat n) (length docs)) docs"
  by (cases sample_size) (simp_all add: scanned_docs_def min_def)

lemma length_scanned_docs:
  "length (scanned_docs sample_size docs) =
     (case sample_size of
        None \<Rightarrow> length docs
      | Some n \<Rightarrow> if n \<le> 0 then length docs else min (nat n) (length docs))"
  by (cases sample_size) (simp_all add: scanned_docs_def min_def)

lemma length_values_of:
  "length (concat (map (values_of k) docs)) = length (filter (\<lambda>kv. fst kv = k) (concat docs))"
  by (induction docs) (simp_all add: values_of_def)

lemma absorb_count:
  "absorb vs None = Some st \<Longrightarrow> count st = length vs"
  by (auto simp add: absorb_def observe_all_count new_stats_def split: if_splits)

lemma mset_concat_map_perm:
  assumes "mset xs = mset ys"
  shows "mset (concat (map f xs)) = mset (concat (map f ys))"
proof -
  have "mset (concat (map f zs)) = sum_mset (image_mset (\<lambda>z. mset (f z)) (mset zs))" for zs
    by (induction zs) simp_all
  with assms show ?thesis by simp
qed

text \<open>
  C8. The scan never raises. It reads the whole sequence when \<^verbatim>\<open>sample_size\<close> is \<^verbatim>\<open>None\<close>,
  zero or negative, and the first \<^verbatim>\<open>sample_size\<close> documents otherwise: the count of scanned
  documents is the length, or the smaller of \<^verbatim>\<open>sample_size\<close> and the length, and the result is
  that of scanning exactly that prefix. For every field of the result, \<open>nullable\<close> holds
  exactly when the occurrence count of the field is below the count of scanned documents;
  the occurrence count is the number of entries of the scanned documents under that key.
\<close>

theorem scan_sample_and_nullable:
  "\<exists>stats total.
     analyze_collection_schema docs sample_size = Inr (stats, total)
     \<and> total = (case sample_size of
                  None \<Rightarrow> length docs
                | Some n \<Rightarrow> if n \<le> 0 then length docs else min (nat n) (length docs))
     \<and> analyze_collection_schema docs sample_size
           = analyze_collection_schema (take total docs) None
     \<and> (\<forall>(k, st) \<in> set stats. nullable st = Some (count st < total))
     \<and> (\<forall>(k, st) \<in> set stats.
           count st = length (filter (\<lambda>kv. fst kv = k) (concat (take total docs))))"
proof -
  let ?S = "scanned_docs sample_size docs"
  let ?t = "length ?S"
  from analyze_ok [of docs sample_size] obtain stats where
    r: "analyze_collection_schema docs sample_size = Inr (stats, ?t)"
    and d: "distinct (map fst stats)"
    and m: "\<And>k. map_of stats k = map_option (\<lambda>st. st\<lparr>nullable := Some (count st < ?t)\<rparr>)
                 (absorb (concat (map (values_of k) ?S)) None)"
    by blast
  have t: "?t = (case sample_size of
                  None \<Rightarrow> length docs
                | Some n \<Rightarrow> if n \<le> 0 then length docs else min (nat n) (length docs))"
    by (rule length_scanned_docs)
  have S: "?S = take ?t docs"
    using scanned_docs_take [of sample_size docs] t by simp
  have same: "analyze_collection_schema docs sample_size
           = analyze_collection_schema (take ?t docs) None"
  proof -
    have "scan_docs sample_size 0 docs [] 0 = scan_docs None 0 ?S [] 0"
      using scan_docs_sample [of sample_size 0 docs "[]" 0]
      by (cases sample_size) (simp_all add: scanned_docs_def)
    with S show ?thesis by (simp add: analyze_collection_schema_def)
  qed
  have each: "nullable st = Some (count st < ?t)
      \<and> count st = length (filter (\<lambda>kv. fst kv = k) (concat (take ?t docs)))"
    if "(k, st) \<in> set stats" for k st
  proof -
    from that d have "map_of stats k = Some st" by simp
    with m [of k] have "map_option (\<lambda>st. st\<lparr>nullable := Some (count st < ?t)\<rparr>)
                 (absorb (concat (map (values_of k) ?S)) None) = Some st"
      by simp
    then obtain st0 where
      a: "absorb (concat (map (values_of k) ?S)) None = Some st0"
      and st: "st = st0\<lparr>nullable := Some (count st0 < ?t)\<rparr>"
      by (cases "absorb (concat (map (values_of k) ?S)) None") auto
    from absorb_count [OF a] have "count st0 = length (concat (map (values_of k) ?S))" .
    with st S show ?thesis by (simp add: length_values_of)
  qed
  have n: "\<forall>(k, st) \<in> set stats. nullable st = Some (count st < ?t)"
    using each by blast
  have c: "\<forall>(k, st) \<in> set stats.
           count st = length (filter (\<lambda>kv. fst kv = k) (concat (take ?t docs)))"
    using each by blast
  show ?thesis
    by (rule exI [of _ stats], rule exI [of _ ?t]) (rule conjI [OF r conjI [OF t conjI [OF same conjI [OF n c]]]])
qed

theorem scan_sample_and_nullable_witness:
  "analyze_collection_schema mixed_docs None =
     Inr ([(''a'', \<lparr>types = {TStr, TInt}, count = 2, int_min = Some 1, int_max = Some 1,
                    max_str_len = 1, nullable = Some False\<rparr>),
           (''b'', \<lparr>types = {TNull}, count = 1, int_min = None, int_max = None,
                    max_str_len = 0, nullable = Some True\<rparr>)], 2)
   \<and> analyze_collection_schema mixed_docs (Some 1) =
     Inr ([(''a'', \<lparr>types = {TInt}, count = 1, int_min = Some 1, int_max = Some 1,
                    max_str_len = 0, nullable = Some False\<rparr>),
           (''b'', \<lparr>types = {TNull}, count = 1, int_min = None, int_max = None,
                    max_str_len = 0, nullable = Some False\<rparr>)], 1)"
  using scan_sample_and_nullable [of mixed_docs None]
    scan_sample_and_nullable [of mixed_docs "Some 1"]
  by (simp add: mixed_docs_def analyze_collection_schema_def scan_doc_def sample_exhausted_def
        observe_value_def add_type_def new_stats_def set_nullable_def)

subsection \<open>The table schema\<close>

lemma ensure_id_distinct: "distinct (map fst stats) \<Longrightarrow> distinct (map fst (ensure_id stats))"
  by (simp add: ensure_id_def distinct_update)

lemma ensure_id_keys: "fst ` set (ensure_id stats) = insert ''_id'' (fst ` set stats)"
  by (auto simp add: ensure_id_def dom_update map_of_eq_None_iff)

lemma ensure_id_map_of:
  "map_of (ensure_id stats) k =
     (if k = ''_id'' \<and> map_of stats ''_id'' = None then Some id_stats else map_of stats k)"
  by (simp add: ensure_id_def update_conv')

lemma ordered_fields_canonical:
  assumes "distinct (map fst stats)"
  shows "ordered_fields_of stats = ''_id'' # sorted_list_of_set (fst ` set stats - {''_id''})"
proof -
  let ?ks = "filter (\<lambda>k. k \<noteq> ''_id'') (map fst stats)"
  have d: "distinct ?ks" using assms by simp
  have s: "set ?ks = fst ` set stats - {''_id''}" by auto
  have "sorted_list_of_set (set ?ks) = sort (remdups ?ks)"
    by (rule sorted_list_of_set_sort_remdups)
  with d s have "sort ?ks = sorted_list_of_set (fst ` set stats - {''_id''})"
    by (simp add: distinct_remdups_id)
  then show ?thesis by (simp add: ordered_fields_of_def)
qed

lemma build_schema_map_ok:
  assumes "distinct fs" and "\<forall>f \<in> set fs. map_of stats f \<noteq> None"
    and "set fs \<inter> fst ` set acc = {}"
  shows "build_schema_map stats fs acc
           = Inr (acc @ map (\<lambda>f. (f, sql_type_from_stats (the (map_of stats f)))) fs)"
  using assms
proof (induction fs arbitrary: acc)
  case Nil
  then show ?case by simp
next
  case (Cons f fs)
  from Cons.prems obtain st where st: "map_of stats f = Some st" by auto
  from Cons.prems have "f \<notin> fst ` set acc" by auto
  then have "map_of acc f = None" by (simp add: map_of_eq_None_iff)
  then have upd: "AList.update f (sql_type_from_stats st) acc = acc @ [(f, sql_type_from_stats st)]"
    by (rule update_absent)
  have "set fs \<inter> fst ` set (acc @ [(f, sql_type_from_stats st)]) = {}"
    using Cons.prems by auto
  with Cons.IH [of "acc @ [(f, sql_type_from_stats st)]"] Cons.prems
  have "build_schema_map stats fs (acc @ [(f, sql_type_from_stats st)])
          = Inr ((acc @ [(f, sql_type_from_stats st)])
                   @ map (\<lambda>f. (f, sql_type_from_stats (the (map_of stats f)))) fs)"
    by simp
  then show ?case using st upd by simp
qed

lemma infer_schema_ok:
  fixes docs :: "document list" and sample_size :: "int option"
  defines "S \<equiv> scanned_docs sample_size docs"
  defines "K \<equiv> (\<Union>d \<in> set S. fst ` set d)"
  defines "fs \<equiv> ''_id'' # sorted_list_of_set (K - {''_id''})"
  shows "\<exists>stats. infer_schema docs sample_size
            = Inr (stats, fs, map (\<lambda>f. (f, sql_type_from_stats (the (map_of stats f)))) fs)
      \<and> (\<forall>f \<in> set fs. map_of stats f \<noteq> None)
      \<and> (\<forall>k. map_of stats k =
            (if k = ''_id'' \<and> ''_id'' \<notin> K then Some id_stats
             else map_option (\<lambda>st. st\<lparr>nullable := Some (count st < length S)\<rparr>)
                    (absorb (concat (map (values_of k) S)) None)))"
proof -
  from analyze_ok [of docs sample_size] obtain s0 where
    r: "analyze_collection_schema docs sample_size = Inr (s0, length S)"
    and d: "distinct (map fst s0)"
    and k: "fst ` set s0 = K"
    and m: "\<And>k. map_of s0 k = map_option (\<lambda>st. st\<lparr>nullable := Some (count st < length S)\<rparr>)
                 (absorb (concat (map (values_of k) S)) None)"
    unfolding S_def K_def by blast
  let ?s = "ensure_id s0"
  have fin: "finite K" unfolding K_def by simp
  have ks: "fst ` set ?s = insert ''_id'' K" using k by (simp add: ensure_id_keys)
  have ds: "distinct (map fst ?s)" using d by (rule ensure_id_distinct)
  have of: "ordered_fields_of ?s = fs"
    using ordered_fields_canonical [OF ds] ks by (simp add: fs_def)
  have dfs: "distinct fs" using fin by (simp add: fs_def)
  have sfs: "set fs = insert ''_id'' K" using fin by (auto simp add: fs_def)
  have dom: "\<forall>f \<in> set fs. map_of ?s f \<noteq> None"
    using sfs ks by (simp add: map_of_eq_None_iff)
  have none_iff: "map_of s0 ''_id'' = None \<longleftrightarrow> ''_id'' \<notin> K"
    using k by (simp add: map_of_eq_None_iff)
  have b: "build_schema_map ?s fs [] = Inr (map (\<lambda>f. (f, sql_type_from_stats (the (map_of ?s f)))) fs)"
    using build_schema_map_ok [OF dfs dom, of "[]"] by simp
  have "infer_schema docs sample_size
            = Inr (?s, fs, map (\<lambda>f. (f, sql_type_from_stats (the (map_of ?s f)))) fs)"
    using r of b by (simp add: infer_schema_def Let_def)
  moreover have "map_of ?s k =
            (if k = ''_id'' \<and> ''_id'' \<notin> K then Some id_stats
             else map_option (\<lambda>st. st\<lparr>nullable := Some (count st < length S)\<rparr>)
                    (absorb (concat (map (values_of k) S)) None))" for k
    using none_iff m [of k] by (simp add: ensure_id_map_of)
  ultimately show ?thesis using dom by blast
qed

text \<open>
  C3. When a sample is scanned whole, scanning any permutation of it gives the same count of
  scanned documents and, for every field, the same statistics (tag set, occurrence count,
  integer bounds, longest string length, nullability), hence the same ordered fields and
  the same schema map: same columns, same order, same types.
\<close>

theorem schema_order_independent:
  assumes perm: "mset docs' = mset docs"
    and whole: "case sample_size of None \<Rightarrow> True | Some n \<Rightarrow> n \<le> 0 \<or> int (length docs) \<le> n"
  shows "\<exists>stats stats' total fs schema full full'.
      analyze_collection_schema docs sample_size = Inr (stats, total)
    \<and> analyze_collection_schema docs' sample_size = Inr (stats', total)
    \<and> map_of stats' = map_of stats
    \<and> infer_schema docs sample_size = Inr (full, fs, schema)
    \<and> infer_schema docs' sample_size = Inr (full', fs, schema)
    \<and> map_of full' = map_of full"
proof -
  have len: "length docs' = length docs" using perm by (rule mset_eq_length)
  have S: "scanned_docs sample_size docs = docs"
    using whole by (cases sample_size) (auto simp add: scanned_docs_def)
  have S': "scanned_docs sample_size docs' = docs'"
    using whole len by (cases sample_size) (auto simp add: scanned_docs_def)
  have set_eq: "set docs' = set docs" using perm by (rule mset_eq_setD)
  have vals: "absorb (concat (map (values_of k) docs')) None
                = absorb (concat (map (values_of k) docs)) None" for k
    by (rule absorb_perm) (rule mset_concat_map_perm [OF perm])
  from analyze_ok [of docs sample_size] obtain stats where
    r: "analyze_collection_schema docs sample_size = Inr (stats, length docs)"
    and m: "\<And>k. map_of stats k = map_option (\<lambda>st. st\<lparr>nullable := Some (count st < length docs)\<rparr>)
                 (absorb (concat (map (values_of k) docs)) None)"
    unfolding S by blast
  from analyze_ok [of docs' sample_size] obtain stats' where
    r': "analyze_collection_schema docs' sample_size = Inr (stats', length docs)"
    and m': "\<And>k. map_of stats' k = map_option (\<lambda>st. st\<lparr>nullable := Some (count st < length docs)\<rparr>)
                 (absorb (concat (map (values_of k) docs')) None)"
    unfolding S' len by blast
  have eq1: "map_of stats' = map_of stats"
    by (rule ext) (simp add: m m' vals)
  let ?K = "\<Union>d \<in> set docs. fst ` set d"
  let ?fs = "''_id'' # sorted_list_of_set (?K - {''_id''})"
  from infer_schema_ok [of docs sample_size] obtain full where
    i: "infer_schema docs sample_size
          = Inr (full, ?fs, map (\<lambda>f. (f, sql_type_from_stats (the (map_of full f)))) ?fs)"
    and f: "\<And>k. map_of full k =
            (if k = ''_id'' \<and> ''_id'' \<notin> ?K then Some id_stats
             else map_option (\<lambda>st. st\<lparr>nullable := Some (count st < length docs)\<rparr>)
                    (absorb (concat (map (values_of k) docs)) None))"
    unfolding S by blast
  from infer_schema_ok [of docs' sample_size] obtain full' where
    i': "infer_schema docs' sample_size
          = Inr (full', ?fs, map (\<lambda>f. (f, sql_type_from_stats (the (map_of full' f)))) ?fs)"
    and f': "\<And>k. map_of full' k =
            (if k = ''_id'' \<and> ''_id'' \<notin> ?K then Some id_stats
             else map_option (\<lambda>st. st\<lparr>nullable := Some (count st < length docs)\<rparr>)
                    (absorb (concat (map (values_of k) docs')) None))"
    unfolding S' len set_eq by blast
  have eq2: "map_of full' = map_of full"
    by (rule ext) (simp add: f f' vals)
  from i' eq2 have i'': "infer_schema docs' sample_size
          = Inr (full', ?fs, map (\<lambda>f. (f, sql_type_from_stats (the (map_of full f)))) ?fs)"
    by simp
  show ?thesis
    using r r' eq1 i i'' eq2 by blast
qed

theorem schema_order_independent_witness:
  "mset (rev mixed_docs) = mset mixed_docs
   \<and> map_sum id snd (infer_schema (rev mixed_docs) None)
       = Inr ([''_id'', ''a'', ''b''],
              [(''_id'', ''NVARCHAR(24)''), (''a'', ''NVARCHAR(MAX)''), (''b'', ''NVARCHAR(MAX)'')])
   \<and> map_sum id snd (infer_schema mixed_docs None)
       = Inr ([''_id'', ''a'', ''b''],
              [(''_id'', ''NVARCHAR(24)''), (''a'', ''NVARCHAR(MAX)''), (''b'', ''NVARCHAR(MAX)'')])"
  using schema_order_independent [of "rev mixed_docs" mixed_docs None]
  by (simp add: mixed_docs_def infer_schema_def analyze_collection_schema_def scan_doc_def
        sample_exhausted_def observe_value_def add_type_def new_stats_def set_nullable_def
        ensure_id_def ordered_fields_of_def id_stats_def sql_type_from_stats_def
        doubleton_eq_iff)

subsection \<open>The batch loader\<close>






lemma insert_row_log:
  assumes "insert_row dumps raises stmt cols doc log = (r, log1)"
  shows "\<exists>l. log1 = log @ l \<and> (r = None \<longrightarrow> map is_commit (succeeded l) = [False])"
proof (cases "convert_values dumps doc cols")
  case (Inl e)
  with assms have "r = Some e" "log1 = log" by (simp_all add: insert_row_def)
  then show ?thesis by simp
next
  case (Inr vals)
  show ?thesis
  proof (cases "raises log (Execute stmt vals)")
    case False
    with Inr assms have "log1 = log @ [(Execute stmt vals, True)]"
      by (simp add: insert_row_def call_sink_def)
    then show ?thesis by (simp add: succeeded_def)
  next
    case True
    let ?l1 = "log @ [(Execute stmt vals, False)]"
    let ?retry = "Execute stmt vals"
    have safe: "safe_values dumps vals = Inr vals"
      using Inr by (rule safe_values_converted)
    show ?thesis
    proof (cases "raises ?l1 ?retry")
      case False
      with True Inr safe assms
      have "log1 = log @ [(Execute stmt vals, False), (?retry, True)]" "r = None"
        by (simp_all add: insert_row_def call_sink_def Let_def)
      then show ?thesis by (simp add: succeeded_def)
    next
      case t: True
      with True Inr safe assms
      have "log1 = log @ [(Execute stmt vals, False), (?retry, False)]" "r = Some SinkError"
        by (simp_all add: insert_row_def call_sink_def Let_def)
      then show ?thesis by simp
    qed
  qed
qed

lemma insert_rows_extends:
  assumes "insert_rows dumps raises stmt cols docs batch rows log = (r, log')"
  shows "\<exists>l. log' = log @ l"
  using assms
proof (induction docs arbitrary: batch rows log)
  case Nil
  then have "log' = log" by simp
  then show ?case by simp
next
  case (Cons doc docs)
  obtain r1 log1 where row: "insert_row dumps raises stmt cols doc log = (r1, log1)"
    by (cases "insert_row dumps raises stmt cols doc log")
  from insert_row_log [OF row] obtain l1 where l1: "log1 = log @ l1" by blast
  show ?case
  proof (cases r1)
    case (Some e)
    with row Cons.prems have "log' = log1" by simp
    with l1 show ?thesis by blast
  next
    case None
    show ?thesis
    proof (cases "batch + 1 \<ge> BATCH_INSERT")
      case False
      with None row Cons.prems
      have "insert_rows dumps raises stmt cols docs (batch + 1) (rows + 1) log1 = (r, log')"
        by simp
      from Cons.IH [OF this] obtain l where "log' = log1 @ l" by blast
      with l1 have "log' = log @ (l1 @ l)" by simp
      then show ?thesis by blast
    next
      case True
      show ?thesis
      proof (cases "raises log1 Commit")
        case t: True
        with True None row Cons.prems have "log' = log1 @ [(Commit, False)]"
          by (simp add: call_sink_def)
        with l1 have "log' = log @ (l1 @ [(Commit, False)])" by simp
        then show ?thesis by blast
      next
        case False
        with True None row Cons.prems
        have "insert_rows dumps raises stmt cols docs 0 (rows + 1) (log1 @ [(Commit, True)]) = (r, log')"
          by (simp add: call_sink_def)
        from Cons.IH [OF this] obtain l where "log' = (log1 @ [(Commit, True)]) @ l" by blast
        with l1 have "log' = log @ (l1 @ [(Commit, True)] @ l)" by simp
        then show ?thesis by blast
      qed
    qed
  qed
qed





subsection \<open>Column order\<close>

lemma map_of_tabulate:
  "f \<in> set fs \<Longrightarrow> map_of (map (\<lambda>f. (f, g f)) fs) f = Some (g f)"
  by (induction fs) auto

lemma create_table_and_insert_ddl_first:
  assumes "infer_schema docs sample_size = Inr (stats, fs, schema)"
  shows "\<exists>outcome later.
      create_table_and_insert dumps raises docs table sample_size log
        = (outcome,
           log @ (Execute (build_create_table_statement table schema) [],
                  \<not> raises log (Execute (build_create_table_statement table schema) [])) # later)"
proof -
  let ?ddl = "Execute (build_create_table_statement table schema) []"
  show ?thesis
  proof (cases "raises log ?ddl")
    case True
    with assms have "create_table_and_insert dumps raises docs table sample_size log
        = (Raised SinkError, log @ (?ddl, \<not> raises log ?ddl) # [])"
      by (simp add: create_table_and_insert_def call_sink_def)
    then show ?thesis by (intro exI)
  next
    case ddl: False
    let ?log1 = "log @ [(?ddl, True)]"
    show ?thesis
    proof (cases "raises ?log1 Commit")
      case True
      with ddl assms have "create_table_and_insert dumps raises docs table sample_size log
        = (Raised SinkError, log @ (?ddl, \<not> raises log ?ddl) # [(Commit, False)])"
        by (simp add: create_table_and_insert_def call_sink_def)
      then show ?thesis by (intro exI)
    next
      case commit: False
      let ?log2 = "log @ [(?ddl, True), (Commit, True)]"
      obtain r log3 where loop:
        "insert_rows dumps raises (insert_statement table fs) fs docs 0 0 ?log2 = (r, log3)"
        by (cases "insert_rows dumps raises (insert_statement table fs) fs docs 0 0 ?log2")
      from insert_rows_extends [OF loop] obtain l where l: "log3 = ?log2 @ l" ..
      have run: "create_table_and_insert dumps raises docs table sample_size log =
        (case r of
           Inl e \<Rightarrow> (Raised e, log3)
         | Inr n \<Rightarrow> if raises log3 Commit then (Raised SinkError, log3 @ [(Commit, False)])
                    else (Finished n, log3 @ [(Commit, True)]))"
        using assms ddl commit loop
        by (simp add: create_table_and_insert_def call_sink_def Let_def split: sum.splits)
      have "\<exists>outcome tail. create_table_and_insert dumps raises docs table sample_size log
               = (outcome, log3 @ tail)"
      proof (cases r)
        case (Inl e)
        with run have "create_table_and_insert dumps raises docs table sample_size log
               = (Raised e, log3 @ [])" by simp
        then show ?thesis by (intro exI)
      next
        case (Inr n)
        show ?thesis
        proof (cases "raises log3 Commit")
          case True
          with run Inr have "create_table_and_insert dumps raises docs table sample_size log
               = (Raised SinkError, log3 @ [(Commit, False)])" by simp
          then show ?thesis by (intro exI)
        next
          case False
          with run Inr have "create_table_and_insert dumps raises docs table sample_size log
               = (Finished n, log3 @ [(Commit, True)])" by simp
          then show ?thesis by (intro exI)
        qed
      qed
      then obtain outcome tail where
        "create_table_and_insert dumps raises docs table sample_size log = (outcome, log3 @ tail)"
        by (elim exE)
      with l ddl have "create_table_and_insert dumps raises docs table sample_size log
        = (outcome, log @ (?ddl, \<not> raises log ?ddl) # ((Commit, True) # l @ tail))"
        by simp
      then show ?thesis by (intro exI)
    qed
  qed
qed

lemma join_Cons: "join sep (x # xs) = x @ concat (map (\<lambda>y. sep @ y) xs)"
  by (induction xs arbitrary: x) simp_all

lemma build_create_table_statement_columns:
  "build_create_table_statement table ((c0, t0) # cols) =
     [NL] @ ''IF OBJECT_ID(N'' @ [SQ] @ ''dbo.'' @ table @ [SQ] @ '', '' @ [SQ] @ ''U''
       @ [SQ] @ '') IS NOT NULL'' @ [NL]
     @ ''    DROP TABLE [dbo].['' @ table @ ''];'' @ [NL]
     @ ''CREATE TABLE [dbo].['' @ table @ ''] ('' @ [NL]
     @ ''  ['' @ c0 @ ''] '' @ t0 @ '' NULL''
     @ concat (map (\<lambda>(c, t). '','' @ [NL] @ ''  ['' @ c @ ''] '' @ t @ '' NULL'') cols)
     @ [NL] @ '');'' @ [NL]"
  by (simp add: build_create_table_statement_def column_sql_def ReCreateIfExists_def Let_def
        join_Cons comp_def case_prod_unfold)

text \<open>
  C7. The schema inference never raises. Its ordered fields are \<^verbatim>\<open>_id\<close> followed by the other
  keys of the scanned documents in strictly ascending order; the schema map has these
  columns in this order, each with the type resolved from the statistics of its field.
  When no scanned document has \<^verbatim>\<open>_id\<close> (an empty collection, say), its entry is the
  synthesized one, with the tag \<open>objectid\<close> and no occurrence, and its type is
  \<open>NVARCHAR(24)\<close>. The table statement is its opening lines, then \<^verbatim>\<open>[_id] type NULL\<close>, then
  for each further column of the schema map, in its order, a comma, a line break and
  \<^verbatim>\<open>[name] type NULL\<close>, then its closing lines; and it is the first call that
  \<open>create_table_and_insert\<close> makes on the sink.
\<close>

theorem schema_id_first_then_sorted:
  "\<exists>stats rest schema.
      infer_schema docs sample_size = Inr (stats, ''_id'' # rest, schema)
    \<and> sorted rest \<and> distinct rest
    \<and> set rest = (\<Union>d \<in> set (scanned_docs sample_size docs). fst ` set d) - {''_id''}
    \<and> map fst schema = ''_id'' # rest
    \<and> (\<forall>f \<in> set (''_id'' # rest).
          \<exists>st. map_of stats f = Some st \<and> map_of schema f = Some (sql_type_from_stats st))
    \<and> (''_id'' \<notin> (\<Union>d \<in> set (scanned_docs sample_size docs). fst ` set d) \<longrightarrow>
          map_of stats ''_id'' = Some id_stats \<and> count id_stats = 0
          \<and> types id_stats = {TObjectId} \<and> hd schema = (''_id'', ''NVARCHAR(24)''))
    \<and> (docs = [] \<longrightarrow> schema = [(''_id'', ''NVARCHAR(24)'')])
    \<and> (\<exists>ty cols.
          schema = (''_id'', ty) # cols
          \<and> build_create_table_statement table schema =
               [NL] @ ''IF OBJECT_ID(N'' @ [SQ] @ ''dbo.'' @ table @ [SQ] @ '', '' @ [SQ] @ ''U''
                 @ [SQ] @ '') IS NOT NULL'' @ [NL]
               @ ''    DROP TABLE [dbo].['' @ table @ ''];'' @ [NL]
               @ ''CREATE TABLE [dbo].['' @ table @ ''] ('' @ [NL]
               @ ''  [_id] '' @ ty @ '' NULL''
               @ concat (map (\<lambda>(c, t). '','' @ [NL] @ ''  ['' @ c @ ''] '' @ t @ '' NULL'') cols)
               @ [NL] @ '');'' @ [NL])
    \<and> (\<forall>dumps raises log. \<exists>outcome later.
          create_table_and_insert dumps raises docs table sample_size log
            = (outcome,
               log @ (Execute (build_create_table_statement table schema) [],
                      \<not> raises log (Execute (build_create_table_statement table schema) []))
                     # later))"
proof -
  let ?S = "scanned_docs sample_size docs"
  let ?K = "\<Union>d \<in> set ?S. fst ` set d"
  let ?rest = "sorted_list_of_set (?K - {''_id''})"
  let ?fs = "''_id'' # ?rest"
  from infer_schema_ok [of docs sample_size] obtain stats where
    all: "infer_schema docs sample_size
            = Inr (stats, ?fs, map (\<lambda>f. (f, sql_type_from_stats (the (map_of stats f)))) ?fs)
      \<and> (\<forall>f \<in> set ?fs. map_of stats f \<noteq> None)
      \<and> (\<forall>k. map_of stats k =
            (if k = ''_id'' \<and> ''_id'' \<notin> ?K then Some id_stats
             else map_option (\<lambda>st. st\<lparr>nullable := Some (count st < length ?S)\<rparr>)
                    (absorb (concat (map (values_of k) ?S)) None)))" ..
  let ?schema = "map (\<lambda>f. (f, sql_type_from_stats (the (map_of stats f)))) ?fs"
  from all have i: "infer_schema docs sample_size = Inr (stats, ?fs, ?schema)"
    by (rule conjunct1)
  from all have dom: "\<forall>f \<in> set ?fs. map_of stats f \<noteq> None"
    by (elim conjE)
  from all have m: "\<forall>k. map_of stats k =
            (if k = ''_id'' \<and> ''_id'' \<notin> ?K then Some id_stats
             else map_option (\<lambda>st. st\<lparr>nullable := Some (count st < length ?S)\<rparr>)
                    (absorb (concat (map (values_of k) ?S)) None))"
    by (elim conjE)
  have fin: "finite ?K" by simp
  have 1: "sorted ?rest" by simp
  have 2: "distinct ?rest" by simp
  have 3: "set ?rest = ?K - {''_id''}" using fin by simp
  have 4: "map fst ?schema = ?fs" by (simp add: comp_def)
  have 5: "\<forall>f \<in> set ?fs.
          \<exists>st. map_of stats f = Some st \<and> map_of ?schema f = Some (sql_type_from_stats st)"
  proof
    fix f assume f: "f \<in> set ?fs"
    with dom obtain st where st: "map_of stats f = Some st" by auto
    from map_of_tabulate [OF f, of "\<lambda>f. sql_type_from_stats (the (map_of stats f))"] st
    have "map_of ?schema f = Some (sql_type_from_stats st)" by simp
    with st show "\<exists>st. map_of stats f = Some st \<and> map_of ?schema f = Some (sql_type_from_stats st)"
      by simp
  qed
  have idty: "sql_type_from_stats id_stats = ''NVARCHAR(24)''"
    by (simp add: sql_type_from_stats_def id_stats_def)
  have 6: "''_id'' \<notin> ?K \<longrightarrow>
          map_of stats ''_id'' = Some id_stats \<and> count id_stats = 0
          \<and> types id_stats = {TObjectId} \<and> hd ?schema = (''_id'', ''NVARCHAR(24)'')"
  proof
    assume "''_id'' \<notin> ?K"
    with m have s: "map_of stats ''_id'' = Some id_stats" by simp
    have "hd ?schema = (''_id'', sql_type_from_stats (the (map_of stats ''_id'')))" by simp
    with s idty have "hd ?schema = (''_id'', ''NVARCHAR(24)'')" by simp
    with s show "map_of stats ''_id'' = Some id_stats \<and> count id_stats = 0
          \<and> types id_stats = {TObjectId} \<and> hd ?schema = (''_id'', ''NVARCHAR(24)'')"
      by (simp add: id_stats_def)
  qed
  have 7: "docs = [] \<longrightarrow> ?schema = [(''_id'', ''NVARCHAR(24)'')]"
  proof
    assume e: "docs = []"
    then have S: "?S = []" by (cases sample_size) (simp_all add: scanned_docs_def)
    with m have s: "map_of stats ''_id'' = Some id_stats" by simp
    from S have "?schema = [(''_id'', sql_type_from_stats (the (map_of stats ''_id'')))]"
      by simp
    with s idty show "?schema = [(''_id'', ''NVARCHAR(24)'')]" by simp
  qed
  let ?ty = "sql_type_from_stats (the (map_of stats ''_id''))"
  let ?cols = "map (\<lambda>f. (f, sql_type_from_stats (the (map_of stats f)))) ?rest"
  have 8: "\<exists>ty cols.
          ?schema = (''_id'', ty) # cols
          \<and> build_create_table_statement table ?schema =
               [NL] @ ''IF OBJECT_ID(N'' @ [SQ] @ ''dbo.'' @ table @ [SQ] @ '', '' @ [SQ] @ ''U''
                 @ [SQ] @ '') IS NOT NULL'' @ [NL]
               @ ''    DROP TABLE [dbo].['' @ table @ ''];'' @ [NL]
               @ ''CREATE TABLE [dbo].['' @ table @ ''] ('' @ [NL]
               @ ''  [_id] '' @ ty @ '' NULL''
               @ concat (map (\<lambda>(c, t). '','' @ [NL] @ ''  ['' @ c @ ''] '' @ t @ '' NULL'') cols)
               @ [NL] @ '');'' @ [NL]"
    by (rule exI [of _ ?ty], rule exI [of _ ?cols])
       (simp add: build_create_table_statement_columns)
  have 9: "\<forall>dumps raises log. \<exists>outcome later.
          create_table_and_insert dumps raises docs table sample_size log
            = (outcome,
               log @ (Execute (build_create_table_statement table ?schema) [],
                      \<not> raises log (Execute (build_create_table_statement table ?schema) []))
                     # later)"
    using create_table_and_insert_ddl_first [OF i] by (intro allI)
  show ?thesis
    by (rule exI [of _ stats], rule exI [of _ ?rest], rule exI [of _ ?schema])
       (rule conjI [OF i conjI [OF 1 conjI [OF 2 conjI [OF 3 conjI [OF 4 conjI [OF 5
          conjI [OF 6 conjI [OF 7 conjI [OF 8 9]]]]]]]]])
qed

theorem schema_id_first_then_sorted_witness:
  "map_sum id snd (infer_schema mixed_docs None)
       = Inr ([''_id'', ''a'', ''b''],
              [(''_id'', ''NVARCHAR(24)''), (''a'', ''NVARCHAR(MAX)''), (''b'', ''NVARCHAR(MAX)'')])
   \<and> map_sum id snd (infer_schema [] None) = Inr ([''_id''], [(''_id'', ''NVARCHAR(24)'')])
   \<and> build_create_table_statement ''t''
         [(''_id'', ''NVARCHAR(24)''), (''a'', ''NVARCHAR(MAX)''), (''b'', ''NVARCHAR(MAX)'')]
       = [NL] @ ''IF OBJECT_ID(N'' @ [SQ] @ ''dbo.t'' @ [SQ] @ '', '' @ [SQ] @ ''U'' @ [SQ]
           @ '') IS NOT NULL'' @ [NL]
         @ ''    DROP TABLE [dbo].[t];'' @ [NL]
         @ ''CREATE TABLE [dbo].[t] ('' @ [NL]
         @ ''  [_id] NVARCHAR(24) NULL,'' @ [NL]
         @ ''  [a] NVARCHAR(MAX) NULL,'' @ [NL]
         @ ''  [b] NVARCHAR(MAX) NULL'' @ [NL]
         @ '');'' @ [NL]
   \<and> build_create_table_statement ''t'' [(''_id'', ''NVARCHAR(24)'')]
       = [NL] @ ''IF OBJECT_ID(N'' @ [SQ] @ ''dbo.t'' @ [SQ] @ '', '' @ [SQ] @ ''U'' @ [SQ]
           @ '') IS NOT NULL'' @ [NL]
         @ ''    DROP TABLE [dbo].[t];'' @ [NL]
         @ ''CREATE TABLE [dbo].[t] ('' @ [NL]
         @ ''  [_id] NVARCHAR(24) NULL'' @ [NL]
         @ '');'' @ [NL]"
proof -
  have schemas: "map_sum id snd (infer_schema mixed_docs None)
       = Inr ([''_id'', ''a'', ''b''],
              [(''_id'', ''NVARCHAR(24)''), (''a'', ''NVARCHAR(MAX)''), (''b'', ''NVARCHAR(MAX)'')])
   \<and> map_sum id snd (infer_schema [] None) = Inr ([''_id''], [(''_id'', ''NVARCHAR(24)'')])"
    using schema_id_first_then_sorted [of mixed_docs None "''t''"]
      schema_id_first_then_sorted [of "[]" None "''t''"]
    by (simp add: mixed_docs_def infer_schema_def analyze_collection_schema_def scan_doc_def
          sample_exhausted_def observe_value_def add_type_def new_stats_def set_nullable_def
          ensure_id_def ordered_fields_of_def id_stats_def sql_type_from_stats_def
          doubleton_eq_iff)
  have ddl3: "build_create_table_statement ''t''
         [(''_id'', ''NVARCHAR(24)''), (''a'', ''NVARCHAR(MAX)''), (''b'', ''NVARCHAR(MAX)'')]
       = [NL] @ ''IF OBJECT_ID(N'' @ [SQ] @ ''dbo.t'' @ [SQ] @ '', '' @ [SQ] @ ''U'' @ [SQ]
           @ '') IS NOT NULL'' @ [NL]
         @ ''    DROP TABLE [dbo].[t];'' @ [NL]
         @ ''CREATE TABLE [dbo].[t] ('' @ [NL]
         @ ''  [_id] NVARCHAR(24) NULL,'' @ [NL]
         @ ''  [a] NVARCHAR(MAX) NULL,'' @ [NL]
         @ ''  [b] NVARCHAR(MAX) NULL'' @ [NL]
         @ '');'' @ [NL]"
    by (simp add: build_create_table_statement_def column_sql_def ReCreateIfExists_def)
  have ddl1: "build_create_table_statement ''t'' [(''_id'', ''NVARCHAR(24)'')]
       = [NL] @ ''IF OBJECT_ID(N'' @ [SQ] @ ''dbo.t'' @ [SQ] @ '', '' @ [SQ] @ ''U'' @ [SQ]
           @ '') IS NOT NULL'' @ [NL]
         @ ''    DROP TABLE [dbo].[t];'' @ [NL]
         @ ''CREATE TABLE [dbo].[t] ('' @ [NL]
         @ ''  [_id] NVARCHAR(24) NULL'' @ [NL]
         @ '');'' @ [NL]"
    by (simp add: build_create_table_statement_def column_sql_def ReCreateIfExists_def)
  show ?thesis
    by (rule conjI [OF schemas [THEN conjunct1]
          conjI [OF schemas [THEN conjunct2] conjI [OF ddl3 ddl1]]])
qed

subsection \<open>Integer sizing\<close>

lemma observe_value_bounds: "bounds_ordered st \<Longrightarrow> bounds_ordered (observe_value st v)"
  by (cases "int_obs v"; cases "int_min st"; cases "int_max st")
     (simp_all add: observe_value_alt bounds_ordered_def min_le_iff_disj le_max_iff_disj)

lemma observe_all_bounds: "bounds_ordered st \<Longrightarrow> bounds_ordered (observe_all vs st)"
  by (induction vs arbitrary: st) (simp_all add: observe_value_bounds)

lemma scanner_bounds_ordered:
  assumes "analyze_collection_schema docs sample_size = Inr (stats, total_docs)"
    and "(k, st) \<in> set stats"
  shows "bounds_ordered st"
proof -
  let ?S = "scanned_docs sample_size docs"
  from analyze_ok [of docs sample_size] obtain s where
    all: "analyze_collection_schema docs sample_size = Inr (s, length ?S)
      \<and> distinct (map fst s)
      \<and> fst ` set s = (\<Union>d \<in> set ?S. fst ` set d)
      \<and> (\<forall>k. map_of s k
             = map_option (\<lambda>st. st\<lparr>nullable := Some (count st < length ?S)\<rparr>)
                 (absorb (concat (map (values_of k) ?S)) None))" ..
  with assms(1) have s: "s = stats" by simp
  from all s have d: "distinct (map fst stats)" by simp
  from all s have m: "map_of stats k
             = map_option (\<lambda>st. st\<lparr>nullable := Some (count st < length ?S)\<rparr>)
                 (absorb (concat (map (values_of k) ?S)) None)" by simp
  from d assms(2) have "map_of stats k = Some st" by simp
  with m obtain st0 where
    a: "absorb (concat (map (values_of k) ?S)) None = Some st0"
    and st: "st = st0\<lparr>nullable := Some (count st0 < length ?S)\<rparr>"
    by (cases "absorb (concat (map (values_of k) ?S)) None") auto
  have "bounds_ordered new_stats" by (simp add: bounds_ordered_def new_stats_def)
  then have "bounds_ordered (observe_all (concat (map (values_of k) ?S)) new_stats)"
    by (rule observe_all_bounds)
  with a have "bounds_ordered st0" by (simp add: absorb_def split: if_splits)
  with st show ?thesis by (simp add: bounds_ordered_def)
qed

text \<open>
  C1. For statistics whose tag set is \<open>{int}\<close> or \<open>{int, null}\<close>: unknown bounds give
  \<open>BIGINT\<close>; with the minimum not above the maximum, bounds within
  \<open>[-2147483648, 2147483647]\<close> give \<open>INT\<close>; else bounds within the signed 64-bit range give
  \<open>BIGINT\<close>; else \<open>DECIMAL(38,0)\<close>, the configured precision with scale zero. The three
  boundary cases of the specification follow. Every entry that a scan produces has its
  bounds both unknown or ordered, so these cases cover all of them.
\<close>

theorem integer_sizing:
  assumes "types st = {TInt} \<or> types st = {TInt, TNull}"
  shows "(int_min st = None \<or> int_max st = None \<longrightarrow> sql_type_from_stats st = ''BIGINT'')
    \<and> (\<forall>lo hi. int_min st = Some lo \<and> int_max st = Some hi \<and> lo \<le> hi \<longrightarrow>
          sql_type_from_stats st =
            (if - 2147483648 \<le> lo \<and> hi \<le> 2147483647 then ''INT''
             else if - (2 ^ 63) \<le> lo \<and> hi \<le> 2 ^ 63 - 1 then ''BIGINT''
             else ''DECIMAL('' @ str_nat DECIMAL_PRECISION @ '',0)''))
    \<and> (int_min st = Some (- 2147483648) \<and> int_max st = Some 2147483647 \<longrightarrow>
          sql_type_from_stats st = ''INT'')
    \<and> (int_min st = Some (- 2147483649) \<and> int_max st = Some 2147483647 \<longrightarrow>
          sql_type_from_stats st = ''BIGINT'')
    \<and> (\<forall>lo hi. int_min st = Some lo \<and> int_max st = Some hi \<and> hi > 2 ^ 63 - 1 \<longrightarrow>
          sql_type_from_stats st = ''DECIMAL(38,0)'')
    \<and> (\<forall>docs sample_size stats total_docs k.
          analyze_collection_schema docs sample_size = Inr (stats, total_docs)
          \<and> (k, st) \<in> set stats \<longrightarrow> bounds_ordered st)"
proof -
  have "sql_type_from_stats st =
       (case int_min st of
          None \<Rightarrow> ''BIGINT''
        | Some lo \<Rightarrow>
           (case int_max st of
              None \<Rightarrow> ''BIGINT''
            | Some hi \<Rightarrow>
               if INT32_MIN \<le> lo \<and> lo \<le> hi \<and> hi \<le> INT32_MAX then ''INT''
               else if INT64_MIN \<le> lo \<and> lo \<le> hi \<and> hi \<le> INT64_MAX then ''BIGINT''
               else ''DECIMAL(38,0)''))"
    using assms resolve_int_only resolve_int_null by blast
  then have sizes: "(int_min st = None \<or> int_max st = None \<longrightarrow> sql_type_from_stats st = ''BIGINT'')
    \<and> (\<forall>lo hi. int_min st = Some lo \<and> int_max st = Some hi \<and> lo \<le> hi \<longrightarrow>
          sql_type_from_stats st =
            (if - 2147483648 \<le> lo \<and> hi \<le> 2147483647 then ''INT''
             else if - (2 ^ 63) \<le> lo \<and> hi \<le> 2 ^ 63 - 1 then ''BIGINT''
             else ''DECIMAL('' @ str_nat DECIMAL_PRECISION @ '',0)''))
    \<and> (int_min st = Some (- 2147483648) \<and> int_max st = Some 2147483647 \<longrightarrow>
          sql_type_from_stats st = ''INT'')
    \<and> (int_min st = Some (- 2147483649) \<and> int_max st = Some 2147483647 \<longrightarrow>
          sql_type_from_stats st = ''BIGINT'')
    \<and> (\<forall>lo hi. int_min st = Some lo \<and> int_max st = Some hi \<and> hi > 2 ^ 63 - 1 \<longrightarrow>
          sql_type_from_stats st = ''DECIMAL(38,0)'')"
    by (auto simp: INT32_MIN_def INT32_MAX_def INT64_MIN_def INT64_MAX_def str_nat_precision
          split: option.splits)
  have scanned: "\<forall>docs sample_size stats total_docs k.
          analyze_collection_schema docs sample_size = Inr (stats, total_docs)
          \<and> (k, st) \<in> set stats \<longrightarrow> bounds_ordered st"
  proof (intro allI impI)
    fix docs sample_size stats total_docs k
    assume "analyze_collection_schema docs sample_size = Inr (stats, total_docs)
          \<and> (k, st) \<in> set stats"
    then show "bounds_ordered st"
      using scanner_bounds_ordered [of docs sample_size stats total_docs k st] by (elim conjE)
  qed
  show ?thesis
    by (rule conjI [OF sizes [THEN conjunct1]
          conjI [OF sizes [THEN conjunct2, THEN conjunct1]
          conjI [OF sizes [THEN conjunct2, THEN conjunct2, THEN conjunct1]
          conjI [OF sizes [THEN conjunct2, THEN conjunct2, THEN conjunct2, THEN conjunct1]
          conjI [OF sizes [THEN conjunct2, THEN conjunct2, THEN conjunct2, THEN conjunct2]
                 scanned]]]]])
qed

theorem integer_sizing_witness:
  "sql_type_from_stats \<lparr>types = {TInt}, count = 2, int_min = Some (- 2147483648),
      int_max = Some 2147483647, max_str_len = 0, nullable = Some False\<rparr> = ''INT''
   \<and> sql_type_from_stats \<lparr>types = {TInt, TNull}, count = 2, int_min = Some (- 2147483649),
      int_max = Some 2147483647, max_str_len = 0, nullable = Some False\<rparr> = ''BIGINT''
   \<and> sql_type_from_stats \<lparr>types = {TInt}, count = 2, int_min = Some 0,
      int_max = Some (2 ^ 63), max_str_len = 0, nullable = Some False\<rparr> = ''DECIMAL(38,0)''
   \<and> sql_type_from_stats \<lparr>types = {TInt}, count = 2, int_min = None,
      int_max = None, max_str_len = 0, nullable = Some False\<rparr> = ''BIGINT''"
  using
    integer_sizing [of "\<lparr>types = {TInt}, count = 2, int_min = Some (- 2147483648),
      int_max = Some 2147483647, max_str_len = 0, nullable = Some False\<rparr>"]
    integer_sizing [of "\<lparr>types = {TInt, TNull}, count = 2, int_min = Some (- 2147483649),
      int_max = Some 2147483647, max_str_len = 0, nullable = Some False\<rparr>"]
    integer_sizing [of "\<lparr>types = {TInt}, count = 2, int_min = Some 0,
      int_max = Some (2 ^ 63), max_str_len = 0, nullable = Some False\<rparr>"]
    integer_sizing [of "\<lparr>types = {TInt}, count = 2, int_min = None,
      int_max = None, max_str_len = 0, nullable = Some False\<rparr>"]
  by (simp add: str_nat_precision)

end
